theory Spec2Isabelle
  imports Complex_Main
begin

section \<open>Data model (types.ts)\<close>

text \<open>
  JavaScript numbers are modelled as follows: the integer-valued counters of the engine
  (credits, power, wave, tick, hit points, cooldown, cargo, damage, production progress)
  are \<open>int\<close>; coordinates, sizes, speeds and ranges are \<open>real\<close> (the doubles of the
  source, idealised: no rounding). Optional fields of the catalog are \<open>option\<close>s, and the
  source's \<open>a || b\<close> on numbers is \<open>js_or\<close>: it takes \<open>b\<close> when \<open>a\<close> is undefined or 0.

  Entities are objects shared by reference (a unit's \<open>targetUnit\<close>, a projectile's
  \<open>target\<close>, the \<open>units\<close> and \<open>buildings\<close> arrays), so the model has an explicit store:
  a reference is a \<open>nat\<close>, the store maps references to entities, and the arrays hold
  references. Vectors are only ever read through such aliases, never written through
  them, so positions are plain values.

  Left out, as they feed the renderer only: the random \<open>id\<close> string, \<open>turretAngle\<close>,
  the particle list, the camera and the canvas.
\<close>

record Vector =
  vx :: real
  vy :: real

datatype EntityType =
    CONSTRUCTION_YARD | POWER_PLANT | REFINERY | BARRACKS | FACTORY | CANNON
  | INFANTRY | TANK | HARVESTER
  | ORE

datatype Team = player | enemy

datatype HarvestState = idle | moving_to_ore | harvesting | returning

record TypeDefinition =
  d_w :: real
  d_h :: real
  d_hp :: int
  d_cost :: int
  d_power :: int
  d_speed :: "real option"
  d_range :: "real option"
  d_damage :: "int option"
  d_fireRate :: "int option"
  d_buildTime :: "int option"
  d_radius :: "real option"
  d_capacity :: "int option"

type_synonym ref = nat

record Entity =
  pos :: Vector
  etype :: EntityType
  team :: Team
  hp :: int
  maxHp :: int
  dead :: bool
  radius :: real
  selected :: bool
  targetPos :: "Vector option"
  targetUnit :: "ref option"
  cooldown :: "int option"
  cargo :: int
  harvestState :: HarvestState

record OrePatch =
  opos :: Vector
  amount :: int

section \<open>Catalog (constants.ts)\<close>

definition TILE_SIZE :: real where
  "TILE_SIZE = 40"

definition mkdef :: "real \<Rightarrow> real \<Rightarrow> int \<Rightarrow> int \<Rightarrow> int \<Rightarrow> TypeDefinition" where
  "mkdef a b c d e = \<lparr> d_w = a, d_h = b, d_hp = c, d_cost = d, d_power = e, d_speed = None, d_range = None,
     d_damage = None, d_fireRate = None, d_buildTime = None, d_radius = None,
     d_capacity = None \<rparr>"

fun DEFINITIONS :: "EntityType \<Rightarrow> TypeDefinition" where
  "DEFINITIONS CONSTRUCTION_YARD = mkdef 3 3 5000 0 20"
| "DEFINITIONS POWER_PLANT = mkdef 2 2 800 300 50"
| "DEFINITIONS REFINERY = mkdef 3 2 1500 1500 (-30)"
| "DEFINITIONS BARRACKS = mkdef 2 2 1000 600 (-10)"
| "DEFINITIONS FACTORY = mkdef 3 3 2000 2000 (-40)"
| "DEFINITIONS CANNON = (mkdef 1 1 800 800 (-20))
     \<lparr> d_range := Some 250, d_damage := Some 40, d_fireRate := Some 60 \<rparr>"
| "DEFINITIONS INFANTRY = (mkdef (1/2) (1/2) 80 100 0)
     \<lparr> d_speed := Some (3/10), d_range := Some 120, d_damage := Some 5, d_fireRate := Some 20,
       d_buildTime := Some 2000, d_radius := Some 6 \<rparr>"
| "DEFINITIONS TANK = (mkdef 1 1 400 800 0)
     \<lparr> d_speed := Some (1/2), d_range := Some 180, d_damage := Some 35, d_fireRate := Some 90,
       d_buildTime := Some 5000, d_radius := Some 16 \<rparr>"
| "DEFINITIONS HARVESTER = (mkdef 1 1 600 1000 0)
     \<lparr> d_speed := Some (2/5), d_range := Some 0, d_damage := Some 0, d_fireRate := Some 0,
       d_buildTime := Some 4000, d_radius := Some 16, d_capacity := Some 500 \<rparr>"
| "DEFINITIONS ORE = mkdef 1 1 100 0 0"

text \<open>\<open>a || b\<close> on an optional number: \<open>undefined\<close> and \<open>0\<close> are falsy.\<close>

definition js_or :: "('a::zero) option \<Rightarrow> 'a \<Rightarrow> 'a" where
  "js_or a b = (case a of None \<Rightarrow> b | Some v \<Rightarrow> if v = 0 then b else v)"

section \<open>The \<open>in\<close> operator on an array literal\<close>

text \<open>
  \<open>key in arr\<close> asks whether \<open>key\<close> is a property name of the array: one of its indices
  \<open>"0"\<close>, ..., \<open>"length - 1"\<close>, \<open>"length"\<close>, or a name inherited from \<open>Array.prototype\<close> or
  \<open>Object.prototype\<close>. It does not look at the elements. The enum members of
  \<open>EntityType\<close> are strings, given by \<open>EntityType_str\<close>.
\<close>

fun EntityType_str :: "EntityType \<Rightarrow> string" where
  "EntityType_str CONSTRUCTION_YARD = ''CONSTRUCTION_YARD''"
| "EntityType_str POWER_PLANT = ''POWER_PLANT''"
| "EntityType_str REFINERY = ''REFINERY''"
| "EntityType_str BARRACKS = ''BARRACKS''"
| "EntityType_str FACTORY = ''FACTORY''"
| "EntityType_str CANNON = ''CANNON''"
| "EntityType_str INFANTRY = ''INFANTRY''"
| "EntityType_str TANK = ''TANK''"
| "EntityType_str HARVESTER = ''HARVESTER''"
| "EntityType_str ORE = ''ORE''"

definition digit_char :: "nat \<Rightarrow> char" where
  "digit_char n = char_of (48 + n)"

function index_str :: "nat \<Rightarrow> string" where
  "index_str n = (if n < 10 then [digit_char n] else index_str (n div 10) @ [digit_char (n mod 10)])"
  by pat_completeness auto
termination
  by (relation "measure id") auto

definition inherited_props :: "string list" where
  "inherited_props =
    [''at'', ''concat'', ''constructor'', ''copyWithin'', ''entries'', ''every'', ''fill'',
     ''filter'', ''find'', ''findIndex'', ''findLast'', ''findLastIndex'', ''flat'', ''flatMap'',
     ''forEach'', ''includes'', ''indexOf'', ''join'', ''keys'', ''lastIndexOf'', ''map'', ''pop'',
     ''push'', ''reduce'', ''reduceRight'', ''reverse'', ''shift'', ''slice'', ''some'', ''sort'',
     ''splice'', ''toLocaleString'', ''toReversed'', ''toSorted'', ''toSpliced'', ''toString'',
     ''unshift'', ''values'', ''with'', ''hasOwnProperty'', ''isPrototypeOf'',
     ''propertyIsEnumerable'', ''valueOf'', ''__proto__'', ''__defineGetter__'',
     ''__defineSetter__'', ''__lookupGetter__'', ''__lookupSetter__'']"

definition js_in :: "string \<Rightarrow> 'a list \<Rightarrow> bool" where
  "js_in key arr \<longleftrightarrow>
     key \<in> set (map index_str [0..<length arr]) \<or> key = ''length'' \<or> key \<in> set inherited_props"

section \<open>World state (GameEngine.ts)\<close>

text \<open>\<open>createEntity\<close>: the catalog entry, the grid snap guarded by the \<open>in\<close> test, the record.\<close>

definition snap_list :: "EntityType list" where
  "snap_list = [CONSTRUCTION_YARD, POWER_PLANT, REFINERY, BARRACKS, FACTORY]"

definition createEntity :: "real \<Rightarrow> real \<Rightarrow> EntityType \<Rightarrow> Team \<Rightarrow> Entity" where
  "createEntity x y ty tm =
    (let def = DEFINITIONS ty;
         snap = js_in (EntityType_str ty) snap_list;
         gx = real_of_int \<lfloor>x / TILE_SIZE\<rfloor>;
         gy = real_of_int \<lfloor>y / TILE_SIZE\<rfloor>;
         posX = (if snap then (gx * TILE_SIZE) + (d_w def * TILE_SIZE) / 2 else x);
         posY = (if snap then (gy * TILE_SIZE) + (d_h def * TILE_SIZE) / 2 else y)
     in \<lparr> pos = \<lparr> vx = posX, vy = posY \<rparr>,
          etype = ty,
          team = tm,
          hp = d_hp def,
          maxHp = d_hp def,
          dead = False,
          radius = js_or (d_radius def) ((max (d_w def) (d_h def) * TILE_SIZE) / 2),
          selected = False,
          targetPos = None,
          targetUnit = None,
          cooldown = Some 0,
          cargo = 0,
          harvestState = idle \<rparr>)"

text \<open>The position the snap describes: the origin of the containing tile plus half the
  footprint.\<close>

definition snapped :: "real \<Rightarrow> real \<Rightarrow> EntityType \<Rightarrow> Vector" where
  "snapped x y ty =
     \<lparr> vx = real_of_int \<lfloor>x / TILE_SIZE\<rfloor> * TILE_SIZE + (d_w (DEFINITIONS ty) * TILE_SIZE) / 2,
       vy = real_of_int \<lfloor>y / TILE_SIZE\<rfloor> * TILE_SIZE + (d_h (DEFINITIONS ty) * TILE_SIZE) / 2 \<rparr>"

subsection \<open>The engine's state\<close>

datatype QueueKey = barracks | factory

record Queue =
  q_type :: EntityType
  q_progress :: int
  q_total :: int

record Projectile =
  ppos :: Vector
  target :: ref
  pdamage :: int

text \<open>
  The callbacks \<open>onUpdateUI\<close>, \<open>onMessage\<close> and \<open>onGameOver\<close> are taken as installed (App.tsx
  installs all three before the first frame); every call is appended to \<open>calls\<close>.
  \<open>WaveIncoming n\<close> is the message \<open>Wave n Incoming!\<close>, \<open>CreditsGained n\<close> is \<open>+n Credits\<close>.
\<close>

datatype Event = UpdateUI | GameOver | Message string | WaveIncoming int | CreditsGained int

record GameEngine =
  credits :: int
  power_bal :: int
  wave :: int
  tick :: int
  buildings :: "ref list"
  units :: "ref list"
  projectiles :: "Projectile list"
  orePatches :: "OrePatch list"
  worldMouse :: Vector
  selectionStart :: Vector
  buildMode :: "EntityType option"
  productionQueues :: "QueueKey \<Rightarrow> Queue option"
  store :: "ref \<Rightarrow> Entity"
  nextRef :: ref
  calls :: "Event list"

definition modify :: "ref \<Rightarrow> (Entity \<Rightarrow> Entity) \<Rightarrow> GameEngine \<Rightarrow> GameEngine" where
  "modify r f s = s\<lparr> store := (store s)(r := f (store s r)) \<rparr>"

definition emit :: "Event \<Rightarrow> GameEngine \<Rightarrow> GameEngine" where
  "emit e s = s\<lparr> calls := calls s @ [e] \<rparr>"

text \<open>\<open>this.units.push(e)\<close> and \<open>this.buildings.push(e)\<close> for a fresh object \<open>e\<close>.\<close>

definition pushUnit :: "Entity \<Rightarrow> GameEngine \<Rightarrow> GameEngine" where
  "pushUnit e s =
     s\<lparr> store := (store s)(nextRef s := e), nextRef := Suc (nextRef s),
        units := units s @ [nextRef s] \<rparr>"

definition pushBuilding :: "Entity \<Rightarrow> GameEngine \<Rightarrow> GameEngine" where
  "pushBuilding e s =
     s\<lparr> store := (store s)(nextRef s := e), nextRef := Suc (nextRef s),
        buildings := buildings s @ [nextRef s] \<rparr>"

definition dist_vec :: "Vector \<Rightarrow> Vector \<Rightarrow> real" where
  "dist_vec v1 v2 = sqrt ((vx v1 - vx v2)\<^sup>2 + (vy v1 - vy v2)\<^sup>2)"

text \<open>The inline \<open>Math.sqrt(dx*dx + dy*dy)\<close> of the movement and projectile code.\<close>

definition norm2 :: "real \<Rightarrow> real \<Rightarrow> real" where
  "norm2 dx dy = sqrt (dx * dx + dy * dy)"

definition calculatePower :: "GameEngine \<Rightarrow> GameEngine" where
  "calculatePower s =
    (let (produced, consumed) =
           fold (\<lambda>b (produced, consumed).
                   let def = DEFINITIONS (etype (store s b))
                   in if d_power def > 0 then (produced + d_power def, consumed)
                      else (produced, consumed + \<bar>d_power def\<bar>))
             (filter (\<lambda>b. team (store s b) = player) (buildings s)) (0, 0)
     in emit UpdateUI (s\<lparr> power_bal := produced - consumed \<rparr>))"

definition nearer :: "(ref \<Rightarrow> Entity) \<Rightarrow> Vector \<Rightarrow> ref \<Rightarrow> real \<times> ref option \<Rightarrow> real \<times> ref option" where
  "nearer st p u acc =
    (case acc of (minDst, nearest) \<Rightarrow>
       if team (st u) = enemy \<and> \<not> dead (st u) then
         let d = dist_vec p (pos (st u))
         in if d < minDst then (d, Some u) else (minDst, nearest)
       else (minDst, nearest))"

definition getNearestEnemy :: "GameEngine \<Rightarrow> Vector \<Rightarrow> real \<Rightarrow> ref option" where
  "getNearestEnemy s p rng =
    (let (minDst, nearest) = fold (nearer (store s) p) (units s) (rng, None)
     in if nearest = None
        then snd (fold (nearer (store s) p) (buildings s) (minDst, nearest))
        else nearest)"

definition fireProjectile :: "ref \<Rightarrow> ref \<Rightarrow> int \<Rightarrow> GameEngine \<Rightarrow> GameEngine" where
  "fireProjectile source tgt dmg s =
     s\<lparr> projectiles := projectiles s @
          [\<lparr> ppos = pos (store s source), target = tgt, pdamage = dmg \<rparr>] \<rparr>"

text \<open>\<open>c > 0\<close> and \<open>c <= 0\<close> on an optional number: both are false on \<open>undefined\<close>.\<close>

definition gt0 :: "int option \<Rightarrow> bool" where
  "gt0 c = (case c of None \<Rightarrow> False | Some v \<Rightarrow> v > 0)"

definition le0 :: "int option \<Rightarrow> bool" where
  "le0 c = (case c of None \<Rightarrow> False | Some v \<Rightarrow> v \<le> 0)"

definition decr :: "Entity \<Rightarrow> Entity" where
  "decr e = e\<lparr> cooldown := map_option (\<lambda>c. c - 1) (cooldown e) \<rparr>"

subsection \<open>Tick, phase 1: production\<close>

text \<open>The test \<open>b.type === ty && b.team === 'player'\<close> of the \<open>find\<close> calls.\<close>

definition isPlayer :: "EntityType \<Rightarrow> (ref \<Rightarrow> Entity) \<Rightarrow> ref \<Rightarrow> bool" where
  "isPlayer ty st b \<longleftrightarrow> etype (st b) = ty \<and> team (st b) = player"

definition advanceQueue :: "QueueKey \<Rightarrow> GameEngine \<Rightarrow> GameEngine" where
  "advanceQueue key s =
    (case productionQueues s key of
       None \<Rightarrow> s
     | Some queue \<Rightarrow>
         let q = queue\<lparr> q_progress := q_progress queue + 16 \<rparr>;
             s1 = s\<lparr> productionQueues := (productionQueues s)(key := Some q) \<rparr>
         in if q_progress q \<ge> q_total q then
              let spawnerType = (if key = barracks then BARRACKS else FACTORY);
                  s2 = (case find (isPlayer spawnerType (store s1)) (buildings s1) of
                          None \<Rightarrow> s1
                        | Some spawner \<Rightarrow>
                            emit (Message ''Unit Ready'')
                              (pushUnit (createEntity (vx (pos (store s1 spawner)))
                                           (vy (pos (store s1 spawner)) + 50) (q_type q) player) s1))
              in emit UpdateUI (s2\<lparr> productionQueues := (productionQueues s2)(key := None) \<rparr>)
            else if tick s mod 10 = 0 then emit UpdateUI s1
            else s1)"

definition production :: "GameEngine \<Rightarrow> GameEngine" where
  "production s =
     (if power_bal s \<ge> 0 then advanceQueue factory (advanceQueue barracks s) else s)"

subsection \<open>Tick, phase 2: cannons\<close>

definition cannonLogic :: "ref \<Rightarrow> GameEngine \<Rightarrow> GameEngine" where
  "cannonLogic b s =
    (if team (store s b) = player \<and> etype (store s b) = CANNON then
       if power_bal s < 0 then s
       else if gt0 (cooldown (store s b)) then modify b decr s
       else (case getNearestEnemy s (pos (store s b)) (the (d_range (DEFINITIONS CANNON))) of
               None \<Rightarrow> s
             | Some tgt \<Rightarrow>
                 modify b (\<lambda>e. e\<lparr> cooldown := d_fireRate (DEFINITIONS CANNON) \<rparr>)
                   (fireProjectile b tgt (the (d_damage (DEFINITIONS CANNON))) s))
     else s)"

definition buildingsLogic :: "GameEngine \<Rightarrow> GameEngine" where
  "buildingsLogic s = fold cannonLogic (buildings s) s"

subsection \<open>Tick, phase 3: units\<close>

definition updateHarvester :: "ref \<Rightarrow> GameEngine \<Rightarrow> GameEngine" where
  "updateHarvester u s =
    (let cap = js_or (d_capacity (DEFINITIONS HARVESTER)) 500
     in if cargo (store s u) \<ge> cap then
          let s1 = modify u (\<lambda>e. e\<lparr> harvestState := returning \<rparr>) s
          in (case find (isPlayer REFINERY (store s1)) (buildings s1) of
                None \<Rightarrow> s1
              | Some refinery \<Rightarrow>
                  let s2 = modify u (\<lambda>e. e\<lparr> targetPos := Some (pos (store s1 refinery)) \<rparr>) s1
                  in if dist_vec (pos (store s2 u)) (pos (store s2 refinery)) < 60 then
                       emit UpdateUI
                         (modify u (\<lambda>e. e\<lparr> cargo := 0, harvestState := idle \<rparr>)
                            (emit (CreditsGained (cargo (store s2 u)))
                               (s2\<lparr> credits := credits s2 + cargo (store s2 u) \<rparr>)))
                     else s2)
        else if harvestState (store s u) = idle \<or> harvestState (store s u) = moving_to_ore then
          (case orePatches s of
             [] \<Rightarrow> s
           | ore # _ \<Rightarrow>
               let s1 = modify u (\<lambda>e. e\<lparr> targetPos := Some (opos ore),
                                         harvestState := moving_to_ore \<rparr>) s
               in if dist_vec (pos (store s1 u)) (opos ore) < 30 then
                    modify u (\<lambda>e. e\<lparr> harvestState := harvesting, targetPos := None \<rparr>) s1
                  else s1)
        else if harvestState (store s u) = harvesting then
          if tick s mod 10 = 0 then
            let s1 = modify u (\<lambda>e. e\<lparr> cargo := cargo e + 10 \<rparr>) s
            in if cargo (store s1 u) \<ge> cap
               then modify u (\<lambda>e. e\<lparr> harvestState := returning \<rparr>) s1
               else s1
          else s
        else s)"

definition aiLogic :: "ref \<Rightarrow> GameEngine \<Rightarrow> GameEngine" where
  "aiLogic u s =
    (if team (store s u) = enemy \<and> targetUnit (store s u) = None \<and> targetPos (store s u) = None
     then (case find (isPlayer CONSTRUCTION_YARD (store s)) (buildings s) of
             None \<Rightarrow> s
           | Some hq \<Rightarrow> modify u (\<lambda>e. e\<lparr> targetUnit := Some hq \<rparr>) s)
     else s)"

definition autoTarget :: "ref \<Rightarrow> GameEngine \<Rightarrow> GameEngine" where
  "autoTarget u s =
    (if targetUnit (store s u) = None \<and> targetPos (store s u) = None
        \<and> etype (store s u) \<noteq> HARVESTER
     then (case getNearestEnemy s (pos (store s u))
                  (js_or (d_range (DEFINITIONS (etype (store s u)))) 150) of
             None \<Rightarrow> s
           | Some tgt \<Rightarrow> modify u (\<lambda>e. e\<lparr> targetUnit := Some tgt \<rparr>) s)
     else s)"

text \<open>The attack block; it yields the local \<open>moveTarget\<close> with the state.\<close>

definition attack :: "ref \<Rightarrow> GameEngine \<Rightarrow> Vector option \<times> GameEngine" where
  "attack u s =
    (let def = DEFINITIONS (etype (store s u));
         moveTarget = targetPos (store s u)
     in case targetUnit (store s u) of
          None \<Rightarrow> (moveTarget, s)
        | Some t \<Rightarrow>
            if dead (store s t) then (moveTarget, modify u (\<lambda>e. e\<lparr> targetUnit := None \<rparr>) s)
            else
              let d = dist_vec (pos (store s u)) (pos (store s t))
              in if d \<le> js_or (d_range def) 0 then
                   (None,
                    if le0 (cooldown (store s u)) then
                      modify u (\<lambda>e. e\<lparr> cooldown := d_fireRate def \<rparr>)
                        (fireProjectile u t (js_or (d_damage def) 0) s)
                    else s)
                 else (Some (pos (store s t)), s))"

definition coolDown :: "ref \<Rightarrow> GameEngine \<Rightarrow> GameEngine" where
  "coolDown u s = (if gt0 (cooldown (store s u)) then modify u decr s else s)"

definition repel :: "(ref \<Rightarrow> Entity) \<Rightarrow> ref \<Rightarrow> ref \<Rightarrow> real \<times> real \<Rightarrow> real \<times> real" where
  "repel st u other acc =
    (case acc of (rx, ry) \<Rightarrow>
       if u \<noteq> other then
         if dist_vec (pos (st u)) (pos (st other)) < 20 then
           (rx + (vx (pos (st u)) - vx (pos (st other))),
            ry + (vy (pos (st u)) - vy (pos (st other))))
         else (rx, ry)
       else (rx, ry))"

definition move :: "ref \<Rightarrow> Vector option \<Rightarrow> GameEngine \<Rightarrow> GameEngine" where
  "move u moveTarget s =
    (case moveTarget of
       None \<Rightarrow> s
     | Some mt \<Rightarrow>
         let dx = vx mt - vx (pos (store s u));
             dy = vy mt - vy (pos (store s u));
             d = norm2 dx dy;
             spd = js_or (d_speed (DEFINITIONS (etype (store s u)))) 1
         in if d > spd then
              let (rx, ry) = fold (repel (store s) u) (units s) (0, 0)
              in modify u (\<lambda>e. e\<lparr> pos := \<lparr> vx = vx (pos e) + (dx / d) * spd + rx * 0.05,
                                             vy = vy (pos e) + (dy / d) * spd + ry * 0.05 \<rparr> \<rparr>) s
            else if targetUnit (store s u) = None
                 then modify u (\<lambda>e. e\<lparr> targetPos := None \<rparr>) s
                 else s)"

definition unitLogic :: "ref \<Rightarrow> GameEngine \<Rightarrow> GameEngine" where
  "unitLogic u s =
    (let s1 = (if etype (store s u) = HARVESTER \<and> team (store s u) = player
               then updateHarvester u s else s);
         s2 = aiLogic u s1;
         s3 = autoTarget u s2;
         (moveTarget, s4) = attack u s3;
         s5 = coolDown u s4
     in move u moveTarget s5)"

definition unitsLogic :: "GameEngine \<Rightarrow> GameEngine" where
  "unitsLogic s = fold unitLogic (units s) s"

subsection \<open>Tick, phase 4: projectiles\<close>

definition hit :: "int \<Rightarrow> Entity \<Rightarrow> Entity" where
  "hit dmg e = (let e1 = e\<lparr> hp := hp e - dmg \<rparr> in if hp e1 \<le> 0 then e1\<lparr> dead := True \<rparr> else e1)"

text \<open>
  The body of the projectile loop. The loop runs from the last index down and splices the
  projectiles that hit, so it is a right fold that keeps the survivors in order.
\<close>

definition projectileStep :: "Projectile \<Rightarrow> Projectile list \<times> GameEngine \<Rightarrow> Projectile list \<times> GameEngine" where
  "projectileStep p acc =
    (case acc of (kept, s) \<Rightarrow>
       let dx = vx (pos (store s (target p))) - vx (ppos p);
           dy = vy (pos (store s (target p))) - vy (ppos p);
           d = norm2 dx dy
       in if d < 10 then (kept, modify (target p) (hit (pdamage p)) s)
          else (p\<lparr> ppos := \<lparr> vx = vx (ppos p) + (dx / d) * 10,
                              vy = vy (ppos p) + (dy / d) * 10 \<rparr> \<rparr> # kept, s))"

definition projectilesLogic :: "GameEngine \<Rightarrow> GameEngine" where
  "projectilesLogic s =
    (let (kept, s1) = foldr projectileStep (projectiles s) ([], s)
     in s1\<lparr> projectiles := kept \<rparr>)"

subsection \<open>Tick, phases 5 to 7: cleanup, waves, win/loss\<close>

definition cleanup :: "GameEngine \<Rightarrow> GameEngine" where
  "cleanup s =
     s\<lparr> units := filter (\<lambda>u. \<not> dead (store s u)) (units s),
        buildings := filter (\<lambda>b. \<not> dead (store s b)) (buildings s) \<rparr>"

text \<open>\<open>rnd i\<close> is the random number drawn for the \<open>i\<close>-th unit of the wave.\<close>

definition waveLogic :: "(nat \<Rightarrow> real) \<Rightarrow> GameEngine \<Rightarrow> GameEngine" where
  "waveLogic rnd s =
    (if tick s mod 5400 = 0 \<and> tick s > 0 then
       let s1 = emit (WaveIncoming (wave s)) s;
           count = \<lfloor>real_of_int (wave s) * 1.5\<rfloor> + 2;
           s2 = fold (\<lambda>i. pushUnit (createEntity 2000 (1000 + (rnd i - 0.5) * 500)
                                      (if i mod 3 = 0 then TANK else INFANTRY) enemy))
                  [0..<nat count] s1
       in emit UpdateUI (s2\<lparr> wave := wave s2 + 1 \<rparr>)
     else s)"

definition winLoss :: "GameEngine \<Rightarrow> GameEngine" where
  "winLoss s =
    (case find (isPlayer CONSTRUCTION_YARD (store s)) (buildings s) of
       None \<Rightarrow> emit GameOver s
     | Some hq \<Rightarrow> s)"

definition update :: "(nat \<Rightarrow> real) \<Rightarrow> GameEngine \<Rightarrow> GameEngine" where
  "update rnd s =
     winLoss (waveLogic rnd (cleanup (projectilesLogic (unitsLogic (buildingsLogic
       (production (s\<lparr> tick := tick s + 1 \<rparr>)))))))"

subsection \<open>Commands\<close>

definition commandUnit :: "ref option \<Rightarrow> Vector \<Rightarrow> ref \<Rightarrow> GameEngine \<Rightarrow> GameEngine" where
  "commandUnit tgt wm u s =
    (if selected (store s u) \<and> team (store s u) = player then
       (case tgt of
          Some t \<Rightarrow> modify u (\<lambda>e. e\<lparr> targetUnit := Some t, targetPos := None \<rparr>) s
        | None \<Rightarrow>
            modify u (\<lambda>e. let e1 = e\<lparr> targetPos := Some wm, targetUnit := None \<rparr>
                          in if etype e1 = HARVESTER then e1\<lparr> harvestState := idle \<rparr> else e1) s)
     else s)"

definition clickedEnemy :: "GameEngine \<Rightarrow> ref option" where
  "clickedEnemy s =
    (case find (\<lambda>u. team (store s u) = enemy \<and> dist_vec (pos (store s u)) (worldMouse s) < 20)
            (units s) of
       Some e \<Rightarrow> Some e
     | None \<Rightarrow>
         find (\<lambda>b. team (store s b) = enemy \<and> dist_vec (pos (store s b)) (worldMouse s) < 40)
           (buildings s))"

definition issueCommand :: "GameEngine \<Rightarrow> GameEngine" where
  "issueCommand s =
    (let s0 = emit UpdateUI (s\<lparr> buildMode := None \<rparr>)
     in fold (commandUnit (clickedEnemy s0) (worldMouse s0)) (units s0) s0)"

definition selectUnit :: "bool \<Rightarrow> real \<Rightarrow> real \<Rightarrow> real \<Rightarrow> real \<Rightarrow> ref \<Rightarrow> GameEngine \<Rightarrow> GameEngine" where
  "selectUnit isClick x1 y1 x2 y2 u s =
    (if team (store s u) = player then
       if isClick then
         modify u (\<lambda>e. e\<lparr> selected := dist_vec (pos e) (worldMouse s) < 20 \<rparr>) s
       else
         modify u (\<lambda>e. e\<lparr> selected := (vx (pos e) > x1 \<and> vx (pos e) < x2
                                         \<and> vy (pos e) > y1 \<and> vy (pos e) < y2) \<rparr>) s
     else s)"

definition selectUnits :: "GameEngine \<Rightarrow> GameEngine" where
  "selectUnits s =
    (let x1 = min (vx (selectionStart s)) (vx (worldMouse s));
         y1 = min (vy (selectionStart s)) (vy (worldMouse s));
         x2 = max (vx (selectionStart s)) (vx (worldMouse s));
         y2 = max (vy (selectionStart s)) (vy (worldMouse s));
         isClick = (\<bar>x2 - x1\<bar> < 5 \<and> \<bar>y2 - y1\<bar> < 5)
     in emit UpdateUI (fold (selectUnit isClick x1 y1 x2 y2) (units s) s))"

record Rect =
  r_x :: real
  r_y :: real
  r_w :: real
  r_h :: real

definition footprint :: "Entity \<Rightarrow> Rect" where
  "footprint b =
    (let bDef = DEFINITIONS (etype b)
     in \<lparr> r_x = vx (pos b) - (d_w bDef * TILE_SIZE) / 2,
          r_y = vy (pos b) - (d_h bDef * TILE_SIZE) / 2,
          r_w = d_w bDef * TILE_SIZE,
          r_h = d_h bDef * TILE_SIZE \<rparr>)"

definition overlaps :: "Rect \<Rightarrow> Rect \<Rightarrow> bool" where
  "overlaps checkRect bRect \<longleftrightarrow>
     r_x checkRect < r_x bRect + r_w bRect \<and> r_x checkRect + r_w checkRect > r_x bRect \<and>
     r_y checkRect < r_y bRect + r_h bRect \<and> r_y checkRect + r_h checkRect > r_y bRect"

definition buildSite :: "EntityType \<Rightarrow> Vector \<Rightarrow> Rect" where
  "buildSite bm wm =
     \<lparr> r_x = real_of_int \<lfloor>vx wm / TILE_SIZE\<rfloor> * TILE_SIZE,
       r_y = real_of_int \<lfloor>vy wm / TILE_SIZE\<rfloor> * TILE_SIZE,
       r_w = d_w (DEFINITIONS bm) * TILE_SIZE,
       r_h = d_h (DEFINITIONS bm) * TILE_SIZE \<rparr>"

definition collision :: "EntityType \<Rightarrow> GameEngine \<Rightarrow> bool" where
  "collision bm s =
     list_ex (\<lambda>b. overlaps (buildSite bm (worldMouse s)) (footprint (store s b))) (buildings s)"

definition tryPlaceBuilding :: "GameEngine \<Rightarrow> GameEngine" where
  "tryPlaceBuilding s =
    (case buildMode s of
       None \<Rightarrow> s
     | Some bm \<Rightarrow>
         if credits s < d_cost (DEFINITIONS bm) then s
         else
           let checkRect = buildSite bm (worldMouse s)
           in if \<not> collision bm s then
                let s1 = s\<lparr> credits := credits s - d_cost (DEFINITIONS bm) \<rparr>;
                    b = createEntity (r_x checkRect + r_w checkRect / 2)
                          (r_y checkRect + r_h checkRect / 2) bm player;
                    s2 = pushBuilding b s1;
                    s3 = (if bm = REFINERY
                          then pushUnit (createEntity (vx (pos b)) (vy (pos b) + 60) HARVESTER player) s2
                          else s2)
                in emit UpdateUI (calculatePower (s3\<lparr> buildMode := None \<rparr>))
              else emit (Message ''Cannot build here!'') s)"

text \<open>
  \<open>queueUnit\<close> of App.tsx. \<open>hasBuildings\<close> is the React state the closure reads: what the
  last \<open>onUpdateUI\<close> call saw, not the engine's building list.
\<close>

definition queueUnit :: "EntityType \<Rightarrow> QueueKey \<Rightarrow> (QueueKey \<Rightarrow> bool) \<Rightarrow> GameEngine \<Rightarrow> GameEngine" where
  "queueUnit ty buildingKey hasBuildings s =
    (let def = DEFINITIONS ty
     in if credits s < d_cost def then emit (Message ''Insufficient Funds'') s
        else if productionQueues s buildingKey \<noteq> None then emit (Message ''Production Busy'') s
        else if \<not> hasBuildings buildingKey then emit (Message ''Building Required'') s
        else s\<lparr> credits := credits s - d_cost def,
                productionQueues := (productionQueues s)(buildingKey :=
                  Some \<lparr> q_type = ty, q_progress = 0, q_total = js_or (d_buildTime def) 1000 \<rparr>) \<rparr>)"

subsection \<open>The initial state\<close>

text \<open>What a store cell holds before an object is allocated there; it is never read.\<close>

definition blank :: Entity where
  "blank = createEntity 0 0 ORE enemy"

definition newEngine :: GameEngine where
  "newEngine =
     \<lparr> credits = 2500, power_bal = 0, wave = 1, tick = 0, buildings = [], units = [],
       projectiles = [], orePatches = [], worldMouse = \<lparr> vx = 0, vy = 0 \<rparr>,
       selectionStart = \<lparr> vx = 0, vy = 0 \<rparr>, buildMode = None,
       productionQueues = (\<lambda>key. None), store = (\<lambda>r. blank), nextRef = 0, calls = [] \<rparr>"

text \<open>\<open>rnd\<close> gives the random numbers of the ore loop: two per patch.\<close>

definition initLevel :: "(nat \<Rightarrow> real) \<Rightarrow> GameEngine" where
  "initLevel rnd =
    (let s1 = pushBuilding (createEntity 1000 1000 CONSTRUCTION_YARD player) newEngine;
         s2 = s1\<lparr> orePatches := map (\<lambda>i. \<lparr> opos = \<lparr> vx = 1000 + (rnd (2 * i) - 0.5) * 1000,
                                                       vy = 1000 + (rnd (2 * i + 1) - 0.5) * 1000 \<rparr>,
                                             amount = 1000 \<rparr>) [0..<20] \<rparr>
     in calculatePower s2)"

subsection \<open>Reachable states\<close>

text \<open>
  The states of a game: the initial level, then any interleaving of ticks (\<open>update\<close>, once
  per frame) with the input handlers' effects: the mouse moving, a drag starting, a build
  mode being picked, a left click in build mode, a command click, a selection, an enqueue.
\<close>

inductive reachable :: "GameEngine \<Rightarrow> bool" where
  r_init: "reachable (initLevel rnd)"
| r_update: "reachable s \<Longrightarrow> reachable (update rnd s)"
| r_mouse: "reachable s \<Longrightarrow> reachable (s\<lparr> worldMouse := v \<rparr>)"
| r_drag: "reachable s \<Longrightarrow> reachable (s\<lparr> selectionStart := worldMouse s \<rparr>)"
| r_mode: "reachable s \<Longrightarrow> reachable (s\<lparr> buildMode := Some bm \<rparr>)"
| r_place: "reachable s \<Longrightarrow> reachable (tryPlaceBuilding s)"
| r_command: "reachable s \<Longrightarrow> reachable (issueCommand s)"
| r_select: "reachable s \<Longrightarrow> reachable (selectUnits s)"
| r_queue: "reachable s \<Longrightarrow> reachable (queueUnit ty key hasBuildings s)"

section \<open>Invariants and auxiliary notions\<close>

text \<open>
  What holds of every allocated entity: a cooldown that is a number is not negative, hit
  points are at most the maximum, the cargo is a multiple of the extraction increment
  between 0 and the harvester's capacity.
\<close>

definition ent_ok :: "Entity \<Rightarrow> bool" where
  "ent_ok e \<longleftrightarrow> (case cooldown e of None \<Rightarrow> True | Some c \<Rightarrow> 0 \<le> c) \<and> hp e \<le> maxHp e
     \<and> 0 \<le> cargo e \<and> cargo e \<le> 500 \<and> 10 dvd cargo e"

text \<open>
  The invariant of the engine: credits are not negative, every allocated entity is
  \<open>ent_ok\<close>, no projectile carries negative damage, the arrays hold allocated references.
\<close>

definition engine_inv :: "GameEngine \<Rightarrow> bool" where
  "engine_inv s \<longleftrightarrow> 0 \<le> credits s
     \<and> (\<forall>r<nextRef s. ent_ok (store s r))
     \<and> (\<forall>p\<in>set (projectiles s). 0 \<le> pdamage p)
     \<and> (\<forall>b\<in>set (buildings s). b < nextRef s)
     \<and> (\<forall>u\<in>set (units s). u < nextRef s)"

text \<open>How often \<open>onGameOver\<close> has been called, and whether \<open>find\<close> sees a player HQ.\<close>

definition gameOverCalls :: "GameEngine \<Rightarrow> nat" where
  "gameOverCalls s = length (filter (\<lambda>e. e = GameOver) (calls s))"

definition hasHQ :: "GameEngine \<Rightarrow> bool" where
  "hasHQ s \<longleftrightarrow> find (isPlayer CONSTRUCTION_YARD (store s)) (buildings s) \<noteq> None"

text \<open>
  Frame conditions: \<open>frame s s'\<close> says that from \<open>s\<close> to \<open>s'\<close> the building list is the same,
  no object of \<open>s\<close> changed type or team, and \<open>onGameOver\<close> was not called; \<open>frame_sub\<close>
  allows buildings to be removed.
\<close>

definition same_kind :: "Entity \<Rightarrow> Entity \<Rightarrow> bool" where
  "same_kind e e' \<longleftrightarrow> etype e' = etype e \<and> team e' = team e"

definition frame :: "GameEngine \<Rightarrow> GameEngine \<Rightarrow> bool" where
  "frame s s' \<longleftrightarrow> buildings s' = buildings s \<and> nextRef s \<le> nextRef s'
     \<and> gameOverCalls s' = gameOverCalls s
     \<and> (\<forall>r<nextRef s. same_kind (store s r) (store s' r))"

definition frame_sub :: "GameEngine \<Rightarrow> GameEngine \<Rightarrow> bool" where
  "frame_sub s s' \<longleftrightarrow> set (buildings s') \<subseteq> set (buildings s) \<and> nextRef s \<le> nextRef s'
     \<and> gameOverCalls s' = gameOverCalls s
     \<and> (\<forall>r<nextRef s. same_kind (store s r) (store s' r))"

text \<open>The guard of the deposit in \<open>updateHarvester\<close>: full cargo, and the first player
  refinery exists and is closer than 60.\<close>

definition deposits :: "ref \<Rightarrow> GameEngine \<Rightarrow> bool" where
  "deposits u s \<longleftrightarrow> cargo (store s u) \<ge> 500 \<and>
     (case find (isPlayer REFINERY (store s)) (buildings s) of
        None \<Rightarrow> False
      | Some refinery \<Rightarrow> dist_vec (pos (store s u)) (pos (store s refinery)) < 60)"

subsection \<open>Notions used by the claims\<close>

text \<open>A unit under a move order to \<open>wm\<close>, as \<open>issueCommand\<close> leaves a harvester; and a selected
  player harvester.\<close>

definition ordered :: "Vector \<Rightarrow> Entity \<Rightarrow> bool" where
  "ordered wm e \<longleftrightarrow> harvestState e = idle \<and> targetPos e = Some wm \<and> targetUnit e = None"

definition selectedHarvester :: "Entity \<Rightarrow> bool" where
  "selectedHarvester e \<longleftrightarrow> selected e \<and> team e = player \<and> etype e = HARVESTER"

text \<open>The distance the projectile loop computes for \<open>p\<close>, the projectile after a step that does
  not hit, and \<open>flight n\<close>: the loop body run on \<open>p\<close> for \<open>n\<close> ticks in which nothing else
  moves; \<open>None\<close> once the projectile has hit and was spliced out.\<close>

definition toTarget :: "Projectile \<Rightarrow> GameEngine \<Rightarrow> real" where
  "toTarget p s = norm2 (vx (pos (store s (target p))) - vx (ppos p))
                        (vy (pos (store s (target p))) - vy (ppos p))"

definition advanced :: "Projectile \<Rightarrow> GameEngine \<Rightarrow> Projectile" where
  "advanced p s =
     p\<lparr> ppos := \<lparr> vx = vx (ppos p)
                     + ((vx (pos (store s (target p))) - vx (ppos p)) / toTarget p s) * 10,
                  vy = vy (ppos p)
                     + ((vy (pos (store s (target p))) - vy (ppos p)) / toTarget p s) * 10 \<rparr> \<rparr>"

fun flight :: "nat \<Rightarrow> Projectile \<Rightarrow> GameEngine \<Rightarrow> Projectile option" where
  "flight 0 p s = Some p"
| "flight (Suc n) p s =
     (case fst (projectileStep p ([], s)) of
        [] \<Rightarrow> None
      | p' # _ \<Rightarrow> flight n p' s)"

section \<open>Example states\<close>

text \<open>The level after the player picked the refinery and clicked at the origin: the
  refinery is object 1, its harvester object 2.\<close>

definition refineryPlaced :: GameEngine where
  "refineryPlaced = tryPlaceBuilding ((initLevel (\<lambda>i. 1/2))\<lparr> buildMode := Some REFINERY \<rparr>)"

text \<open>The construction yard of \<open>initLevel\<close>.\<close>

definition hq :: Entity where
  "hq = createEntity 1000 1000 CONSTRUCTION_YARD player"

text \<open>The yard alone, and an infantry order 10 short of completion in the barracks slot: the
  barracks is gone. \<open>orphanOrder_after\<close> is the state one tick later.\<close>

definition orphanOrder :: GameEngine where
  "orphanOrder = newEngine\<lparr> power_bal := 20, buildings := [0], nextRef := 1,
     store := (\<lambda>r. blank)(0 := createEntity 1000 1000 CONSTRUCTION_YARD player),
     productionQueues := (\<lambda>key. None)(barracks :=
        Some \<lparr> q_type = INFANTRY, q_progress = 1990, q_total = 2000 \<rparr>) \<rparr>"

definition orphanOrder_after :: GameEngine where
  "orphanOrder_after = newEngine\<lparr> power_bal := 20, tick := 1, buildings := [0], nextRef := 1,
     store := (\<lambda>r. blank)(0 := createEntity 1000 1000 CONSTRUCTION_YARD player),
     calls := [UpdateUI] \<rparr>"

text \<open>The yard, the barracks slot occupied, the power plant picked and the mouse on the yard;
  with 50 credits and with 2500.\<close>

definition busyBroke :: GameEngine where
  "busyBroke = newEngine\<lparr> credits := 50, power_bal := 20, buildings := [0], nextRef := 1,
     store := (\<lambda>r. blank)(0 := createEntity 1000 1000 CONSTRUCTION_YARD player),
     worldMouse := \<lparr> vx = 1000, vy = 1000 \<rparr>, buildMode := Some POWER_PLANT,
     productionQueues := (\<lambda>key. None)(barracks :=
        Some \<lparr> q_type = INFANTRY, q_progress = 160, q_total = 2000 \<rparr>) \<rparr>"

definition busyRich :: GameEngine where
  "busyRich = busyBroke\<lparr> credits := 2500 \<rparr>"

text \<open>A selected harvester (object 1) extracting 10 away from the only ore patch, and the mouse
  at (90, 500). \<open>orderedHarvester1\<close> is the state after the command click,
  \<open>orderedHarvester2\<close> the state one tick after that.\<close>

definition orderedHarvester :: GameEngine where
  "orderedHarvester = newEngine\<lparr> power_bal := 20, buildings := [0], units := [1], nextRef := 2,
     worldMouse := \<lparr> vx = 90, vy = 500 \<rparr>,
     orePatches := [\<lparr> opos = \<lparr> vx = 100, vy = 0 \<rparr>, amount = 1000 \<rparr>],
     store := (\<lambda>r. blank)
       (0 := hq,
        1 := (createEntity 90 0 HARVESTER player)
               \<lparr> selected := True, cargo := 120, harvestState := harvesting \<rparr>) \<rparr>"

definition orderedHarvester1 :: GameEngine where
  "orderedHarvester1 = orderedHarvester\<lparr> calls := [UpdateUI],
     store := (\<lambda>r. blank)
       (0 := hq,
        1 := (createEntity 90 0 HARVESTER player)
               \<lparr> selected := True, cargo := 120, harvestState := idle,
                 targetPos := Some \<lparr> vx = 90, vy = 500 \<rparr> \<rparr>) \<rparr>"

definition orderedHarvester2 :: GameEngine where
  "orderedHarvester2 = orderedHarvester\<lparr> calls := [UpdateUI], tick := 1 \<rparr>"

text \<open>The yard with 30 hit points left and a shell of damage 40 at distance 5 from it;
  \<open>doomed_after n\<close> is the state \<open>n\<close> ticks later.\<close>

definition doomed :: GameEngine where
  "doomed = newEngine\<lparr> power_bal := 20, buildings := [0], nextRef := 1,
     store := (\<lambda>r. blank)(0 := hq\<lparr> hp := 30 \<rparr>),
     projectiles := [\<lparr> ppos = \<lparr> vx = 995, vy = 1000 \<rparr>, target = 0, pdamage = 40 \<rparr>] \<rparr>"

definition doomed_after :: "int \<Rightarrow> GameEngine" where
  "doomed_after n = newEngine\<lparr> power_bal := 20, tick := n, buildings := [], nextRef := 1,
     store := (\<lambda>r. blank)(0 := hq\<lparr> hp := -10, dead := True \<rparr>),
     calls := replicate (nat n) GameOver \<rparr>"

text \<open>Eleven idle player tanks (objects 2 to 12) standing on the spot where their factory put
  them, (81, 0); a twelfth (object 1) at \<open>(x, 0)\<close> under a move order to (1000, 0); a shell
  at \<open>(px, 0)\<close> homing on it.\<close>

definition idleTank :: Entity where
  "idleTank = createEntity 81 0 TANK player"

definition runner :: "real \<Rightarrow> Entity" where
  "runner x = (createEntity x 0 TANK player)\<lparr> targetPos := Some \<lparr> vx = 1000, vy = 0 \<rparr> \<rparr>"

definition shell :: "real \<Rightarrow> Projectile" where
  "shell x = \<lparr> ppos = \<lparr> vx = x, vy = 0 \<rparr>, target = 1, pdamage = 35 \<rparr>"

definition crowdAt :: "real \<Rightarrow> real \<Rightarrow> int \<Rightarrow> GameEngine" where
  "crowdAt x px n = newEngine\<lparr> power_bal := 20, tick := n, buildings := [0],
     units := [1, 2, 3, 4, 5, 6, 7, 8, 9, 10, 11, 12], nextRef := 13,
     store := (\<lambda>r. if 2 \<le> r \<and> r < 13 then idleTank else blank)(0 := hq, 1 := runner x),
     projectiles := [shell px] \<rparr>"

definition crowd :: GameEngine where
  "crowd = crowdAt 100 50 0"


text \<open>Negative power: the yard, a cannon (object 1) with an enemy tank (object 2) 50 away, and
  a running infantry order.\<close>

definition blackout :: GameEngine where
  "blackout = newEngine\<lparr> power_bal := -20, buildings := [0, 1], units := [2], nextRef := 3,
     store := (\<lambda>r. blank)
       (0 := hq, 1 := createEntity 1100 1000 CANNON player,
        2 := createEntity 1150 1000 TANK enemy),
     productionQueues := (\<lambda>key. None)(barracks :=
        Some \<lparr> q_type = INFANTRY, q_progress = 160, q_total = 2000 \<rparr>) \<rparr>"

section \<open>The harvest cycle over a tick\<close>

text \<open>
  \<open>keeps s s'\<close>: from \<open>s\<close> to \<open>s'\<close> the credits are the same and no object of \<open>s\<close> changed its
  cargo or harvest state. Every phase of \<open>update\<close> but the unit phase keeps the state in this
  sense.
\<close>

definition keeps :: "GameEngine \<Rightarrow> GameEngine \<Rightarrow> bool" where
  "keeps s s' \<longleftrightarrow> nextRef s \<le> nextRef s' \<and> credits s' = credits s
     \<and> (\<forall>r<nextRef s. cargo (store s' r) = cargo (store s r)
                       \<and> harvestState (store s' r) = harvestState (store s r))"

text \<open>The first step of \<open>unitLogic\<close>: player harvesters run \<open>updateHarvester\<close>.\<close>

definition harvesterTurn :: "ref \<Rightarrow> GameEngine \<Rightarrow> GameEngine" where
  "harvesterTurn u t =
     (if etype (store t u) = HARVESTER \<and> team (store t u) = player then updateHarvester u t else t)"

text \<open>
  What one tick does to the cargo and harvest state of a unit, from the entity before (\<open>e\<close>)
  to the entity after (\<open>e'\<close>). \<open>turn_ok\<close>: the cargo drops only from 500 to 0, in a player
  harvester that is idle afterwards, and a unit that was not idle is idle afterwards only
  if its cargo dropped. \<open>cycle_step n ore\<close> is the cycle of \<open>updateHarvester\<close> at tick \<open>n\<close>, \<open>ore\<close>
  telling whether an ore patch exists: a full harvester returns or unloads, an idle or
  seeking one seeks ore or starts to extract, an extracting one gains 10 on every tenth
  tick and turns back when full. \<open>turn_rel\<close> is \<open>cycle_step\<close> for player harvesters and no
  change for every other unit.
\<close>

definition turn_ok :: "Entity \<Rightarrow> Entity \<Rightarrow> bool" where
  "turn_ok e e' \<longleftrightarrow>
     (cargo e' < cargo e \<longrightarrow>
        cargo e = 500 \<and> cargo e' = 0 \<and> harvestState e' = idle
        \<and> etype e = HARVESTER \<and> team e = player)
     \<and> (harvestState e' = idle \<and> harvestState e \<noteq> idle \<longrightarrow> cargo e' < cargo e)"

definition cycle_step :: "int \<Rightarrow> bool \<Rightarrow> Entity \<Rightarrow> Entity \<Rightarrow> bool" where
  "cycle_step n ore e e' \<longleftrightarrow>
     (if 500 \<le> cargo e then
        (harvestState e' = returning \<and> cargo e' = cargo e)
        \<or> (harvestState e' = idle \<and> cargo e' = 0)
      else if harvestState e = idle \<or> harvestState e = moving_to_ore then
        cargo e' = cargo e
        \<and> (if ore then harvestState e' = moving_to_ore \<or> harvestState e' = harvesting
            else harvestState e' = harvestState e)
      else if harvestState e = harvesting then
        (if n mod 10 = 0
         then cargo e' = cargo e + 10
              \<and> harvestState e' = (if 500 \<le> cargo e + 10 then returning else harvesting)
         else cargo e' = cargo e \<and> harvestState e' = harvesting)
      else cargo e' = cargo e \<and> harvestState e' = harvestState e)"

definition turn_rel :: "int \<Rightarrow> bool \<Rightarrow> Entity \<Rightarrow> Entity \<Rightarrow> bool" where
  "turn_rel n ore e e' \<longleftrightarrow>
     (if etype e = HARVESTER \<and> team e = player then cycle_step n ore e e'
      else cargo e' = cargo e \<and> harvestState e' = harvestState e)"

text \<open>\<open>unloads s s' u\<close>: the cargo of \<open>u\<close> is smaller in \<open>s'\<close> than in \<open>s\<close>.\<close>

definition unloads :: "GameEngine \<Rightarrow> GameEngine \<Rightarrow> ref \<Rightarrow> bool" where
  "unloads s s' u \<longleftrightarrow> cargo (store s' u) < cargo (store s u)"

text \<open>
  The unit list holds distinct allocated objects. \<open>fresh_units s s'\<close>: the unit list of \<open>s'\<close>
  is that of \<open>s\<close> followed by objects allocated since, all with empty cargo.
\<close>

definition wf_units :: "GameEngine \<Rightarrow> bool" where
  "wf_units s \<longleftrightarrow> distinct (units s) \<and> (\<forall>u\<in>set (units s). u < nextRef s)"

definition fresh_units :: "GameEngine \<Rightarrow> GameEngine \<Rightarrow> bool" where
  "fresh_units s s' \<longleftrightarrow> nextRef s \<le> nextRef s' \<and>
     (\<exists>N. units s' = units s @ N
        \<and> (\<forall>n\<in>set N. nextRef s \<le> n \<and> n < nextRef s' \<and> cargo (store s' n) = 0))"

section \<open>A round trip\<close>

text \<open>
  The random numbers that put the first ore patch at (660, 720), and the level after the
  player picked the refinery and clicked at (600, 600): the refinery (object 1) has its
  centre at (660, 640), its harvester (object 2) stands at (660, 700), 20 from the ore. The
  power balance is -10.
\<close>

definition rnd0 :: "nat \<Rightarrow> real" where
  "rnd0 i = (if i = 0 then 4 / 25 else if i = 1 then 11 / 50 else 1 / 2)"

definition tripStart :: GameEngine where
  "tripStart = tryPlaceBuilding
     ((initLevel rnd0)\<lparr> worldMouse := \<lparr> vx = 600, vy = 600 \<rparr>, buildMode := Some REFINERY \<rparr>)"

text \<open>
  The states of the trip: \<open>tripAt ui n c hs tp y cr cl\<close> is \<open>tripStart\<close> at tick \<open>n\<close> with the
  harvester at \<open>(660, y)\<close> holding cargo \<open>c\<close> in state \<open>hs\<close> with destination \<open>tp\<close>, the credits
  \<open>cr\<close> and the callbacks \<open>cl\<close>; \<open>ui\<close> holds what the input handlers set: whether the harvester is
  selected, the mouse position and the start of the drag (\<open>ui0\<close> in \<open>tripStart\<close>). \<open>trip_h k\<close> is the state after \<open>k\<close> ticks, up to the tick that
  fills the harvester. \<open>tripFull\<close> is the state after 501 ticks: the full harvester has
  taken its first step back to the refinery.
\<close>

type_synonym Ui = "bool \<times> Vector \<times> Vector"

definition ui0 :: Ui where
  "ui0 = (False, \<lparr> vx = 600, vy = 600 \<rparr>, \<lparr> vx = 0, vy = 0 \<rparr>)"

definition harv :: "Ui \<Rightarrow> int \<Rightarrow> HarvestState \<Rightarrow> Vector option \<Rightarrow> real \<Rightarrow> Entity" where
  "harv ui c hs tp y = (createEntity 660 y HARVESTER player)
     \<lparr> selected := fst ui, targetPos := tp, cargo := c, harvestState := hs \<rparr>"

definition tripAt :: "Ui \<Rightarrow> int \<Rightarrow> int \<Rightarrow> HarvestState \<Rightarrow> Vector option \<Rightarrow> real \<Rightarrow> int
    \<Rightarrow> Event list \<Rightarrow> GameEngine" where
  "tripAt ui n c hs tp y cr cl =
     (initLevel rnd0)\<lparr> credits := cr, power_bal := -10, tick := n, buildings := [0, 1],
        units := [2], worldMouse := fst (snd ui), selectionStart := snd (snd ui),
        nextRef := 3, calls := cl,
        store := (\<lambda>r. blank)(0 := hq, 1 := createEntity 660 640 REFINERY player,
                                2 := harv ui c hs tp y) \<rparr>"

definition trip_h :: "nat \<Rightarrow> GameEngine" where
  "trip_h k = tripAt ui0 (int k) (10 * (int k div 10))
     (if k = 0 then idle else if k < 500 then harvesting else returning) None 700 1000
     [UpdateUI, UpdateUI, UpdateUI]"

definition tripFull :: GameEngine where
  "tripFull = update rnd0 ((update rnd0 ^^ 500) tripStart)"

section \<open>Lemmas\<close>

subsection \<open>Entity creation\<close>

lemma enum_not_in_snap_list: "\<not> js_in (EntityType_str ty) snap_list"
  by (cases ty) (simp_all add: js_in_def snap_list_def inherited_props_def digit_char_def
      upt_conv_Cons)

lemma createEntity_pos: "pos (createEntity x y ty tm) = \<lparr> vx = x, vy = y \<rparr>"
  by (simp add: createEntity_def Let_def enum_not_in_snap_list)

lemma createEntity_sel:
  "etype (createEntity x y ty tm) = ty"
  "team (createEntity x y ty tm) = tm"
  "hp (createEntity x y ty tm) = d_hp (DEFINITIONS ty)"
  "maxHp (createEntity x y ty tm) = d_hp (DEFINITIONS ty)"
  "dead (createEntity x y ty tm) = False"
  "selected (createEntity x y ty tm) = False"
  "targetPos (createEntity x y ty tm) = None"
  "targetUnit (createEntity x y ty tm) = None"
  "cooldown (createEntity x y ty tm) = Some 0"
  "cargo (createEntity x y ty tm) = 0"
  "harvestState (createEntity x y ty tm) = idle"
  by (simp_all add: createEntity_def Let_def)

lemma createEntity_eval:
  "createEntity x y ty tm =
     \<lparr> pos = \<lparr> vx = x, vy = y \<rparr>, etype = ty, team = tm, hp = d_hp (DEFINITIONS ty),
       maxHp = d_hp (DEFINITIONS ty), dead = False,
       radius = js_or (d_radius (DEFINITIONS ty))
                  ((max (d_w (DEFINITIONS ty)) (d_h (DEFINITIONS ty)) * TILE_SIZE) / 2),
       selected = False, targetPos = None, targetUnit = None, cooldown = Some 0, cargo = 0,
       harvestState = idle \<rparr>"
  by (simp add: createEntity_def Let_def enum_not_in_snap_list)

subsection \<open>Distances along an axis\<close>

lemma dist_vec_same_y: "vy a = vy b \<Longrightarrow> dist_vec a b = \<bar>vx a - vx b\<bar>"
  by (simp add: dist_vec_def)

lemma dist_vec_same_x: "vx a = vx b \<Longrightarrow> dist_vec a b = \<bar>vy a - vy b\<bar>"
  by (simp add: dist_vec_def)

lemma norm2_axis: "norm2 dx 0 = \<bar>dx\<bar>" "norm2 0 dy = \<bar>dy\<bar>"
  by (simp_all add: norm2_def)

subsection \<open>Preservation of the invariant\<close>

lemma fold_preserves:
  assumes "P s0"
    and "\<And>t x. P t \<Longrightarrow> P (f x t)"
  shows "P (fold f xs s0)"
  using assms by (induction xs arbitrary: s0) auto

lemma inv_modify: "engine_inv s \<Longrightarrow> (\<And>e. ent_ok e \<Longrightarrow> ent_ok (f e)) \<Longrightarrow> engine_inv (modify r f s)"
  by (simp add: engine_inv_def modify_def)

lemma inv_emit: "engine_inv s \<Longrightarrow> engine_inv (emit e s)"
  by (simp add: engine_inv_def emit_def)

lemma ent_ok_createEntity: "ent_ok (createEntity x y ty tm)"
  by (simp add: ent_ok_def createEntity_def Let_def)

lemma inv_pushUnit: "engine_inv s \<Longrightarrow> ent_ok e \<Longrightarrow> engine_inv (pushUnit e s)"
  by (auto simp add: engine_inv_def pushUnit_def less_Suc_eq)

lemma inv_pushBuilding: "engine_inv s \<Longrightarrow> ent_ok e \<Longrightarrow> engine_inv (pushBuilding e s)"
  by (auto simp add: engine_inv_def pushBuilding_def less_Suc_eq)

lemma inv_fireProjectile: "engine_inv s \<Longrightarrow> 0 \<le> dmg \<Longrightarrow> engine_inv (fireProjectile a b dmg s)"
  by (auto simp add: engine_inv_def fireProjectile_def)

lemma ent_ok_decr: "ent_ok e \<Longrightarrow> gt0 (cooldown e) \<Longrightarrow> ent_ok (decr e)"
  by (auto simp add: ent_ok_def decr_def gt0_def split: option.splits)

lemma damage_nonneg: "0 \<le> js_or (d_damage (DEFINITIONS ty)) 0"
  by (cases ty) (simp_all add: js_or_def mkdef_def)

lemma inv_fields [simp]:
  "engine_inv (s\<lparr> productionQueues := q \<rparr>) = engine_inv s"
  "engine_inv (s\<lparr> tick := n \<rparr>) = engine_inv s"
  "engine_inv (s\<lparr> wave := n \<rparr>) = engine_inv s"
  "engine_inv (s\<lparr> buildMode := m \<rparr>) = engine_inv s"
  "engine_inv (s\<lparr> worldMouse := v \<rparr>) = engine_inv s"
  "engine_inv (s\<lparr> selectionStart := v \<rparr>) = engine_inv s"
  "engine_inv (s\<lparr> orePatches := ps \<rparr>) = engine_inv s"
  "engine_inv (s\<lparr> power_bal := n \<rparr>) = engine_inv s"
  "engine_inv (s\<lparr> calls := c \<rparr>) = engine_inv s"
  by (simp_all add: engine_inv_def)

lemma inv_advanceQueue: "engine_inv s \<Longrightarrow> engine_inv (advanceQueue key s)"
  unfolding advanceQueue_def Let_def
  by (simp add: inv_emit inv_pushUnit ent_ok_createEntity split: option.splits)

lemma inv_production: "engine_inv s \<Longrightarrow> engine_inv (production s)"
  by (simp add: production_def inv_advanceQueue)

lemma inv_cannonLogic: "engine_inv s \<Longrightarrow> engine_inv (cannonLogic b s)"
proof -
  assume a: "engine_inv s"
  have ok: "\<And>e. ent_ok e \<Longrightarrow> ent_ok (e\<lparr> cooldown := Some 60 \<rparr>)"
    by (simp add: ent_ok_def)
  show ?thesis
  proof (cases "gt0 (cooldown (store s b))")
    case True
    have "engine_inv (modify b decr s)"
      using a True by (auto simp add: engine_inv_def modify_def intro: ent_ok_decr)
    then show ?thesis using a True by (simp add: cannonLogic_def)
  next
    case False
    then show ?thesis using a
      by (auto simp add: cannonLogic_def mkdef_def split: option.splits
          intro!: inv_modify inv_fireProjectile ok)
  qed
qed

lemma inv_buildingsLogic: "engine_inv s \<Longrightarrow> engine_inv (buildingsLogic s)"
  unfolding buildingsLogic_def by (rule fold_preserves) (auto intro: inv_cannonLogic)

lemma ent_ok_fireRate: "ent_ok e \<Longrightarrow> ent_ok (e\<lparr> cooldown := d_fireRate (DEFINITIONS ty) \<rparr>)"
  by (cases ty) (simp_all add: ent_ok_def mkdef_def)

lemma ent_ok_fields [simp]:
  "ent_ok (e\<lparr> harvestState := hs \<rparr>) = ent_ok e"
  "ent_ok (e\<lparr> targetPos := tp \<rparr>) = ent_ok e"
  "ent_ok (e\<lparr> targetUnit := tu \<rparr>) = ent_ok e"
  "ent_ok (e\<lparr> selected := b \<rparr>) = ent_ok e"
  "ent_ok (e\<lparr> pos := v \<rparr>) = ent_ok e"
  "ent_ok (e\<lparr> dead := b \<rparr>) = ent_ok e"
  by (simp_all add: ent_ok_def)

lemma inv_modify_at:
  "engine_inv s \<Longrightarrow> (r < nextRef s \<Longrightarrow> ent_ok (store s r) \<Longrightarrow> ent_ok (f (store s r)))
   \<Longrightarrow> engine_inv (modify r f s)"
  by (simp add: engine_inv_def modify_def)

lemma store_modify: "store (modify r f s) = (store s)(r := f (store s r))"
  by (simp add: modify_def)

lemma inv_credits: "engine_inv s \<Longrightarrow> 0 \<le> k \<Longrightarrow> engine_inv (s\<lparr> credits := credits s + k \<rparr>)"
  by (simp add: engine_inv_def)

lemma cap_500: "js_or (d_capacity (DEFINITIONS HARVESTER)) 500 = 500"
  by (simp add: js_or_def mkdef_def)

lemma inv_updateHarvester:
  assumes a: "engine_inv s" and u: "u < nextRef s"
  shows "engine_inv (updateHarvester u s)"
proof -
  have ok: "ent_ok (store s u)"
    using a u by (simp add: engine_inv_def)
  show ?thesis
  proof (cases "cargo (store s u) \<ge> 500")
    case True
    define s1 where "s1 = modify u (\<lambda>e. e\<lparr> harvestState := returning \<rparr>) s"
    have i1: "engine_inv s1"
      unfolding s1_def using a by (rule inv_modify) simp
    have dep: "engine_inv (emit UpdateUI
                 (modify u (\<lambda>e. e\<lparr> cargo := 0, harvestState := idle \<rparr>)
                    (emit (CreditsGained k) (t\<lparr> credits := credits t + k \<rparr>))))"
      if "engine_inv t" and "0 \<le> k" for t k
      using that
      by (intro inv_emit inv_modify inv_credits) (simp_all add: ent_ok_def)
    have c: "0 \<le> cargo (store s u)"
      using ok by (simp add: ent_ok_def)
    show ?thesis
      unfolding updateHarvester_def Let_def cap_500 s1_def [symmetric]
      using True i1 c
      by (simp add: s1_def [symmetric] split: option.splits)
         (auto intro!: dep inv_modify simp: s1_def store_modify)
  next
    case False
    have dig: "engine_inv (modify u (\<lambda>e. e\<lparr> cargo := cargo e + 10 \<rparr>) s)"
      using a
    proof (rule inv_modify_at)
      show "ent_ok ((store s u)\<lparr> cargo := cargo (store s u) + 10 \<rparr>)"
        using ok False by (auto simp add: ent_ok_def)
    qed
    show ?thesis
      unfolding updateHarvester_def Let_def cap_500
      using False a dig
      by (auto split: list.splits intro!: inv_modify)
  qed
qed

lemma inv_aiLogic: "engine_inv s \<Longrightarrow> engine_inv (aiLogic u s)"
  unfolding aiLogic_def
  by (auto split: option.splits intro!: inv_modify simp: ent_ok_def)

lemma inv_autoTarget: "engine_inv s \<Longrightarrow> engine_inv (autoTarget u s)"
  unfolding autoTarget_def
  by (auto split: option.splits intro!: inv_modify simp: ent_ok_def)

lemma inv_attack: "engine_inv s \<Longrightarrow> engine_inv (snd (attack u s))"
  unfolding attack_def Let_def
  by (auto split: option.splits intro!: inv_modify inv_fireProjectile damage_nonneg ent_ok_fireRate
      simp: ent_ok_def)

lemma inv_coolDown: "engine_inv s \<Longrightarrow> engine_inv (coolDown u s)"
  unfolding coolDown_def
  by (auto simp add: engine_inv_def modify_def intro: ent_ok_decr)

lemma inv_move: "engine_inv s \<Longrightarrow> engine_inv (move u mt s)"
  unfolding move_def Let_def
  by (auto split: option.splits prod.splits intro!: inv_modify simp: ent_ok_def)

lemma nextRef_modify [simp]: "nextRef (modify r f s) = nextRef s"
  by (simp add: modify_def)

lemma nextRef_emit [simp]: "nextRef (emit e s) = nextRef s"
  by (simp add: emit_def)

lemma fold_preserves_set:
  assumes "P s0"
    and "\<And>t x. P t \<Longrightarrow> x \<in> set xs \<Longrightarrow> P (f x t)"
  shows "P (fold f xs s0)"
  using assms by (induction xs arbitrary: s0) auto

lemma fields_modify [simp]:
  "units (modify r f s) = units s" "buildings (modify r f s) = buildings s"
  "credits (modify r f s) = credits s" "calls (modify r f s) = calls s"
  "projectiles (modify r f s) = projectiles s" "productionQueues (modify r f s) = productionQueues s"
  "power_bal (modify r f s) = power_bal s" "tick (modify r f s) = tick s"
  "orePatches (modify r f s) = orePatches s"
  by (simp_all add: modify_def)

lemma fields_emit [simp]:
  "units (emit e s) = units s" "buildings (emit e s) = buildings s"
  "credits (emit e s) = credits s" "store (emit e s) = store s"
  "projectiles (emit e s) = projectiles s" "productionQueues (emit e s) = productionQueues s"
  "power_bal (emit e s) = power_bal s" "tick (emit e s) = tick s"
  "orePatches (emit e s) = orePatches s"
  by (simp_all add: emit_def)

lemma fields_fireProjectile [simp]:
  "units (fireProjectile a b d s) = units s" "buildings (fireProjectile a b d s) = buildings s"
  "credits (fireProjectile a b d s) = credits s" "store (fireProjectile a b d s) = store s"
  "calls (fireProjectile a b d s) = calls s" "nextRef (fireProjectile a b d s) = nextRef s"
  "productionQueues (fireProjectile a b d s) = productionQueues s"
  "power_bal (fireProjectile a b d s) = power_bal s" "tick (fireProjectile a b d s) = tick s"
  "orePatches (fireProjectile a b d s) = orePatches s"
  by (simp_all add: fireProjectile_def)

lemma shape_updateHarvester:
  "units (updateHarvester u s) = units s \<and> buildings (updateHarvester u s) = buildings s
   \<and> nextRef (updateHarvester u s) = nextRef s"
  unfolding updateHarvester_def Let_def by (simp split: option.splits list.splits)

lemma shape_aiLogic:
  "units (aiLogic u s) = units s \<and> buildings (aiLogic u s) = buildings s
   \<and> nextRef (aiLogic u s) = nextRef s"
  unfolding aiLogic_def by (simp split: option.splits)

lemma shape_autoTarget:
  "units (autoTarget u s) = units s \<and> buildings (autoTarget u s) = buildings s
   \<and> nextRef (autoTarget u s) = nextRef s"
  unfolding autoTarget_def by (simp split: option.splits)

lemma shape_attack:
  "units (snd (attack u s)) = units s \<and> buildings (snd (attack u s)) = buildings s
   \<and> nextRef (snd (attack u s)) = nextRef s"
  unfolding attack_def Let_def by (simp split: option.splits)

lemma shape_coolDown:
  "units (coolDown u s) = units s \<and> buildings (coolDown u s) = buildings s
   \<and> nextRef (coolDown u s) = nextRef s"
  unfolding coolDown_def by simp

lemma shape_move:
  "units (move u mt s) = units s \<and> buildings (move u mt s) = buildings s
   \<and> nextRef (move u mt s) = nextRef s"
  unfolding move_def Let_def by (simp split: option.splits prod.splits)

lemma shape_unitLogic:
  "units (unitLogic u s) = units s \<and> buildings (unitLogic u s) = buildings s
   \<and> nextRef (unitLogic u s) = nextRef s"
  unfolding unitLogic_def Let_def
  by (simp add: case_prod_beta shape_move shape_coolDown shape_attack shape_autoTarget
      shape_aiLogic shape_updateHarvester)

lemma inv_unitLogic:
  assumes "engine_inv s" and "u < nextRef s"
  shows "engine_inv (unitLogic u s)"
proof -
  define s1 where
    "s1 = (if etype (store s u) = HARVESTER \<and> team (store s u) = player
           then updateHarvester u s else s)"
  have "engine_inv s1"
    using assms by (simp add: s1_def inv_updateHarvester)
  then have "engine_inv (snd (attack u (autoTarget u (aiLogic u s1))))"
    by (intro inv_attack inv_autoTarget inv_aiLogic)
  then show ?thesis
    unfolding unitLogic_def Let_def s1_def [symmetric]
    by (simp add: case_prod_beta inv_move inv_coolDown)
qed

lemma inv_unitsLogic:
  assumes "engine_inv s"
  shows "engine_inv (unitsLogic s)"
proof -
  have "engine_inv (fold unitLogic (units s) s) \<and> nextRef (fold unitLogic (units s) s) = nextRef s"
  proof (rule fold_preserves_set [where P = "\<lambda>t. engine_inv t \<and> nextRef t = nextRef s"])
    show "engine_inv s \<and> nextRef s = nextRef s" using assms by simp
  next
    fix x t
    assume "x \<in> set (units s)" and "engine_inv t \<and> nextRef t = nextRef s"
    moreover have "x < nextRef s" using assms \<open>x \<in> set (units s)\<close> by (simp add: engine_inv_def)
    ultimately show "engine_inv (unitLogic x t) \<and> nextRef (unitLogic x t) = nextRef s"
      by (simp add: inv_unitLogic shape_unitLogic)
  qed
  then show ?thesis by (simp add: unitsLogic_def)
qed

lemma ent_ok_hit: "ent_ok e \<Longrightarrow> 0 \<le> dmg \<Longrightarrow> ent_ok (hit dmg e)"
  by (simp add: ent_ok_def hit_def Let_def)

lemma inv_projectileStep:
  "engine_inv s \<and> (\<forall>p\<in>set kept. 0 \<le> pdamage p) \<Longrightarrow> 0 \<le> pdamage p \<Longrightarrow>
   engine_inv (snd (projectileStep p (kept, s)))
   \<and> (\<forall>p\<in>set (fst (projectileStep p (kept, s))). 0 \<le> pdamage p)"
  unfolding projectileStep_def Let_def
  by (auto intro!: inv_modify ent_ok_hit)

lemma inv_foldr_projectileStep:
  "engine_inv s \<Longrightarrow> \<forall>p\<in>set ps. 0 \<le> pdamage p \<Longrightarrow>
   engine_inv (snd (foldr projectileStep ps ([], s)))
   \<and> (\<forall>p\<in>set (fst (foldr projectileStep ps ([], s))). 0 \<le> pdamage p)"
proof (induction ps)
  case Nil
  then show ?case by simp
next
  case (Cons p ps)
  then show ?case
    using inv_projectileStep [of "snd (foldr projectileStep ps ([], s))"
        "fst (foldr projectileStep ps ([], s))" p]
    by simp
qed

lemma inv_projectilesLogic: "engine_inv s \<Longrightarrow> engine_inv (projectilesLogic s)"
  using inv_foldr_projectileStep [of s "projectiles s"]
  by (auto simp add: projectilesLogic_def case_prod_beta engine_inv_def)

lemma inv_cleanup: "engine_inv s \<Longrightarrow> engine_inv (cleanup s)"
  by (simp add: cleanup_def engine_inv_def)

lemma inv_waveLogic: "engine_inv s \<Longrightarrow> engine_inv (waveLogic rnd s)"
proof -
  assume a: "engine_inv s"
  have "engine_inv (fold (\<lambda>i. pushUnit (createEntity 2000 (1000 + (rnd i - 0.5) * 500)
            (if i mod 3 = 0 then TANK else INFANTRY) enemy)) xs t)" if "engine_inv t" for xs t
    using that by (rule fold_preserves) (simp add: inv_pushUnit ent_ok_createEntity)
  then have "engine_inv (fold (\<lambda>i. pushUnit (createEntity 2000 (1000 + (rnd i - 0.5) * 500)
            (if i mod 3 = 0 then TANK else INFANTRY) enemy)) xs (emit e s))" for xs e
    using a by (simp add: inv_emit)
  then show ?thesis
    unfolding waveLogic_def Let_def
    using a by (simp only: inv_emit inv_fields if_split simp_thms)
qed

lemma inv_winLoss: "engine_inv s \<Longrightarrow> engine_inv (winLoss s)"
  by (simp add: winLoss_def inv_emit split: option.splits)

lemma inv_update: "engine_inv s \<Longrightarrow> engine_inv (update rnd s)"
proof -
  assume "engine_inv s"
  then have "engine_inv (s\<lparr> tick := tick s + 1 \<rparr>)" by (simp add: engine_inv_def)
  then show ?thesis
    unfolding update_def
    by (intro inv_winLoss inv_waveLogic inv_cleanup inv_projectilesLogic inv_unitsLogic
        inv_buildingsLogic inv_production)
qed

lemma inv_calculatePower: "engine_inv s \<Longrightarrow> engine_inv (calculatePower s)"
  by (simp add: calculatePower_def Let_def case_prod_beta engine_inv_def emit_def)

lemma inv_tryPlaceBuilding: "engine_inv s \<Longrightarrow> engine_inv (tryPlaceBuilding s)"
proof -
  assume a: "engine_inv s"
  have c: "engine_inv (s\<lparr> credits := credits s - k \<rparr>)" if "\<not> credits s < k" for k
    using a that by (simp add: engine_inv_def)
  have m: "engine_inv (t\<lparr> buildMode := None \<rparr>)" if "engine_inv t" for t
    using that by (simp add: engine_inv_def)
  show ?thesis
    unfolding tryPlaceBuilding_def Let_def
    using a
    by (auto split: option.splits
        intro!: inv_emit inv_calculatePower m inv_pushUnit inv_pushBuilding ent_ok_createEntity c)
qed

lemma inv_commandUnit: "engine_inv s \<Longrightarrow> engine_inv (commandUnit tgt wm u s)"
  unfolding commandUnit_def Let_def
  by (auto split: option.splits intro!: inv_modify simp: ent_ok_def)

lemma inv_issueCommand: "engine_inv s \<Longrightarrow> engine_inv (issueCommand s)"
proof -
  assume "engine_inv s"
  then have "engine_inv (emit UpdateUI (s\<lparr> buildMode := None \<rparr>))"
    by (simp add: engine_inv_def emit_def)
  then show ?thesis
    unfolding issueCommand_def Let_def
    by (rule fold_preserves) (rule inv_commandUnit)
qed

lemma inv_selectUnit: "engine_inv s \<Longrightarrow> engine_inv (selectUnit c x1 y1 x2 y2 u s)"
  unfolding selectUnit_def
  by (auto intro!: inv_modify simp: ent_ok_def)

lemma inv_selectUnits: "engine_inv s \<Longrightarrow> engine_inv (selectUnits s)"
  unfolding selectUnits_def Let_def
  by (rule inv_emit, rule fold_preserves) (simp_all add: inv_selectUnit)

lemma inv_queueUnit: "engine_inv s \<Longrightarrow> engine_inv (queueUnit ty key hb s)"
  unfolding queueUnit_def Let_def
  by (auto simp add: inv_emit) (simp add: engine_inv_def)

lemma inv_initLevel: "engine_inv (initLevel rnd)"
proof -
  have "engine_inv newEngine"
    by (simp add: engine_inv_def newEngine_def)
  then have "engine_inv (pushBuilding (createEntity 1000 1000 CONSTRUCTION_YARD player) newEngine)"
    by (simp add: inv_pushBuilding ent_ok_createEntity)
  then have "engine_inv ((pushBuilding (createEntity 1000 1000 CONSTRUCTION_YARD player) newEngine)
               \<lparr> orePatches := ps \<rparr>)" for ps
    by (simp add: engine_inv_def)
  then show ?thesis
    unfolding initLevel_def Let_def by (rule inv_calculatePower)
qed

lemma reachable_inv: "reachable s \<Longrightarrow> engine_inv s"
proof (induction rule: reachable.induct)
  case (r_init rnd)
  show ?case by (rule inv_initLevel)
next
  case (r_update s rnd)
  then show ?case by (simp add: inv_update)
next
  case (r_mouse s v)
  then show ?case by (simp add: engine_inv_def)
next
  case (r_drag s)
  then show ?case by (simp add: engine_inv_def)
next
  case (r_mode s bm)
  then show ?case by (simp add: engine_inv_def)
next
  case (r_place s)
  then show ?case by (simp add: inv_tryPlaceBuilding)
next
  case (r_command s)
  then show ?case by (simp add: inv_issueCommand)
next
  case (r_select s)
  then show ?case by (simp add: inv_selectUnits)
next
  case (r_queue s ty key hasBuildings)
  then show ?case by (simp add: inv_queueUnit)
qed

subsection \<open>Frame conditions of the tick\<close>

lemma frame_refl: "frame s s"
  by (simp add: frame_def same_kind_def)

lemma frame_trans: "frame s t \<Longrightarrow> frame t u \<Longrightarrow> frame s u"
  by (auto simp add: frame_def same_kind_def)

lemma frame_fold: "(\<And>x t. frame t (f x t)) \<Longrightarrow> frame s (fold f xs s)"
proof (induction xs arbitrary: s)
  case Nil
  show ?case by (simp add: frame_refl)
next
  case (Cons x xs)
  have "frame s (f x s)" by (rule Cons.prems)
  moreover have "frame (f x s) (fold f xs (f x s))" by (rule Cons.IH) (rule Cons.prems)
  ultimately show ?case by (auto intro: frame_trans)
qed

lemma frame_modify: "(\<And>e. same_kind e (f e)) \<Longrightarrow> frame t s \<Longrightarrow> frame t (modify r f s)"
  by (simp add: frame_def modify_def gameOverCalls_def same_kind_def)

lemma frame_emit: "e \<noteq> GameOver \<Longrightarrow> frame t s \<Longrightarrow> frame t (emit e s)"
  by (simp add: frame_def emit_def gameOverCalls_def)

lemma frame_pushUnit: "frame t s \<Longrightarrow> frame t (pushUnit e s)"
  by (simp add: frame_def pushUnit_def gameOverCalls_def)

lemma frame_fireProjectile: "frame t s \<Longrightarrow> frame t (fireProjectile a b d s)"
  by (simp add: frame_def fireProjectile_def gameOverCalls_def)

lemma frame_fields [simp]:
  "frame t (s\<lparr> productionQueues := q \<rparr>) = frame t s"
  "frame t (s\<lparr> tick := n \<rparr>) = frame t s"
  "frame t (s\<lparr> wave := n \<rparr>) = frame t s"
  "frame t (s\<lparr> credits := n \<rparr>) = frame t s"
  "frame t (s\<lparr> projectiles := ps \<rparr>) = frame t s"
  "frame t (s\<lparr> units := us \<rparr>) = frame t s"
  by (simp_all add: frame_def gameOverCalls_def)

lemma same_kind_fields [simp]:
  "same_kind e (e\<lparr> harvestState := hs \<rparr>)"
  "same_kind e (e\<lparr> targetPos := tp \<rparr>)"
  "same_kind e (e\<lparr> targetUnit := tu \<rparr>)"
  "same_kind e (e\<lparr> cooldown := c \<rparr>)"
  "same_kind e (e\<lparr> cargo := k \<rparr>)"
  "same_kind e (e\<lparr> pos := v \<rparr>)"
  "same_kind e (e\<lparr> cargo := k, harvestState := hs \<rparr>)"
  "same_kind e (e\<lparr> targetPos := tp, harvestState := hs \<rparr>)"
  "same_kind e (e\<lparr> harvestState := hs, targetPos := tp \<rparr>)"
  "same_kind e (decr e)"
  "same_kind e (hit d e)"
  by (simp_all add: same_kind_def decr_def hit_def Let_def)

lemmas frame_intros = frame_modify frame_emit frame_pushUnit frame_fireProjectile same_kind_fields frame_refl

lemma frame_advanceQueue: "frame t s \<Longrightarrow> frame t (advanceQueue key s)"
  unfolding advanceQueue_def Let_def
  by (simp add: frame_intros split: option.splits)

lemma frame_production: "frame t s \<Longrightarrow> frame t (production s)"
  by (simp add: production_def frame_advanceQueue)

lemma frame_cannonLogic: "frame t s \<Longrightarrow> frame t (cannonLogic b s)"
  unfolding cannonLogic_def
  by (simp add: frame_intros split: option.splits)

lemma frame_fold': "(\<And>x t s. frame t s \<Longrightarrow> frame t (f x s)) \<Longrightarrow> frame t s \<Longrightarrow> frame t (fold f xs s)"
  by (induction xs arbitrary: s) auto

lemma frame_buildingsLogic: "frame t s \<Longrightarrow> frame t (buildingsLogic s)"
  unfolding buildingsLogic_def by (rule frame_fold') (simp_all add: frame_cannonLogic)

lemma frame_updateHarvester: "frame t s \<Longrightarrow> frame t (updateHarvester u s)"
  unfolding updateHarvester_def Let_def
  by (simp add: frame_intros split: option.splits list.splits)

lemma frame_aiLogic: "frame t s \<Longrightarrow> frame t (aiLogic u s)"
  unfolding aiLogic_def by (simp add: frame_intros split: option.splits)

lemma frame_autoTarget: "frame t s \<Longrightarrow> frame t (autoTarget u s)"
  unfolding autoTarget_def by (simp add: frame_intros split: option.splits)

lemma frame_attack: "frame t s \<Longrightarrow> frame t (snd (attack u s))"
  unfolding attack_def Let_def by (simp add: frame_intros split: option.splits)

lemma frame_coolDown: "frame t s \<Longrightarrow> frame t (coolDown u s)"
  unfolding coolDown_def by (simp add: frame_intros)

lemma frame_move: "frame t s \<Longrightarrow> frame t (move u mt s)"
  unfolding move_def Let_def by (simp add: frame_intros same_kind_def split: option.splits prod.splits)

lemma frame_unitLogic: "frame t s \<Longrightarrow> frame t (unitLogic u s)"
  unfolding unitLogic_def Let_def
  by (simp add: case_prod_beta frame_move frame_coolDown frame_attack frame_autoTarget
      frame_aiLogic frame_updateHarvester)

lemma frame_unitsLogic: "frame t s \<Longrightarrow> frame t (unitsLogic s)"
  unfolding unitsLogic_def by (rule frame_fold') (simp_all add: frame_unitLogic)

lemma frame_projectileStep: "frame t (snd acc) \<Longrightarrow> frame t (snd (projectileStep p acc))"
  unfolding projectileStep_def Let_def
  by (simp add: case_prod_beta frame_intros)

lemma frame_foldr_projectileStep: "frame t s \<Longrightarrow> frame t (snd (foldr projectileStep ps ([], s)))"
  by (induction ps) (simp_all add: frame_projectileStep)

lemma frame_projectilesLogic: "frame t s \<Longrightarrow> frame t (projectilesLogic s)"
  unfolding projectilesLogic_def Let_def
  by (simp add: case_prod_beta frame_foldr_projectileStep)

lemma frame_spawn: "frame t s \<Longrightarrow> frame t (fold (\<lambda>i. pushUnit (g i)) xs s)"
  by (induction xs arbitrary: s) (simp_all add: frame_pushUnit)

lemma frame_waveLogic: "frame t s \<Longrightarrow> frame t (waveLogic rnd s)"
  unfolding waveLogic_def Let_def
  by (auto intro!: frame_emit frame_spawn)

lemma hasHQ_winLoss: "hasHQ (winLoss s) = hasHQ s"
  by (simp add: hasHQ_def winLoss_def emit_def split: option.splits)

lemma gameOverCalls_winLoss: "gameOverCalls (winLoss s) = gameOverCalls s + (if hasHQ s then 0 else 1)"
  by (auto simp add: hasHQ_def winLoss_def emit_def gameOverCalls_def split: option.splits)

lemma hasHQ_iff: "hasHQ s \<longleftrightarrow> (\<exists>b\<in>set (buildings s). isPlayer CONSTRUCTION_YARD (store s) b)"
  by (auto simp add: hasHQ_def find_None_iff)

lemma frame_before_cleanup:
  "frame s (projectilesLogic (unitsLogic (buildingsLogic (production (s\<lparr> tick := tick s + 1 \<rparr>)))))"
  by (intro frame_projectilesLogic frame_unitsLogic frame_buildingsLogic frame_production)
     (simp add: frame_refl)

lemma frame_cleanup_buildings:
  "frame t s \<Longrightarrow> set (buildings (cleanup s)) \<subseteq> set (buildings t)
     \<and> nextRef t \<le> nextRef (cleanup s) \<and> gameOverCalls (cleanup s) = gameOverCalls t
     \<and> (\<forall>r<nextRef t. same_kind (store t r) (store (cleanup s) r))"
  by (auto simp add: frame_def cleanup_def gameOverCalls_def)

lemma frame_sub_frame: "frame_sub s t \<Longrightarrow> frame t u \<Longrightarrow> frame_sub s u"
  by (auto simp add: frame_sub_def frame_def same_kind_def)

lemma frame_sub_update_pre:
  "frame_sub s (waveLogic rnd (cleanup (projectilesLogic (unitsLogic (buildingsLogic
       (production (s\<lparr> tick := tick s + 1 \<rparr>)))))))"
proof -
  have "frame_sub s (cleanup (projectilesLogic (unitsLogic (buildingsLogic
       (production (s\<lparr> tick := tick s + 1 \<rparr>))))))"
    using frame_cleanup_buildings [OF frame_before_cleanup, of s] by (simp add: frame_sub_def)
  then show ?thesis
    by (rule frame_sub_frame) (simp add: frame_waveLogic frame_refl)
qed

lemma gameOver_update:
  "gameOverCalls (update rnd s) = gameOverCalls s + (if hasHQ (update rnd s) then 0 else 1)"
  using frame_sub_update_pre [of s rnd]
  by (simp add: update_def hasHQ_winLoss gameOverCalls_winLoss frame_sub_def)

lemma hasHQ_frame_sub:
  assumes "frame_sub s s'" and "\<forall>b\<in>set (buildings s). b < nextRef s" and "hasHQ s'"
  shows "hasHQ s"
proof -
  from assms(3) obtain b where b: "b \<in> set (buildings s')" "isPlayer CONSTRUCTION_YARD (store s') b"
    by (auto simp add: hasHQ_iff)
  then have "b \<in> set (buildings s)" using assms(1) by (auto simp add: frame_sub_def)
  moreover from this have "b < nextRef s" using assms(2) by simp
  then have "same_kind (store s b) (store s' b)" using assms(1) by (simp add: frame_sub_def)
  then have "isPlayer CONSTRUCTION_YARD (store s) b" using b(2) by (simp add: isPlayer_def same_kind_def)
  ultimately show ?thesis by (auto simp add: hasHQ_iff)
qed

lemma hasHQ_update:
  assumes "\<forall>b\<in>set (buildings s). b < nextRef s" and "hasHQ (update rnd s)"
  shows "hasHQ s"
  using hasHQ_frame_sub [OF frame_sub_update_pre assms(1)] assms(2)
  by (simp add: update_def hasHQ_winLoss)

subsection \<open>Independence of the power balance\<close>

lemma getNearestEnemy_power:
  "getNearestEnemy (s\<lparr> power_bal := p \<rparr>) v r = getNearestEnemy s v r"
  by (simp add: getNearestEnemy_def case_prod_beta)

lemma updateHarvester_power:
  "updateHarvester u (s\<lparr> power_bal := p \<rparr>) = (updateHarvester u s)\<lparr> power_bal := p \<rparr>"
proof (cases "cargo (store s u) \<ge> 500")
  case True
  then show ?thesis
    unfolding updateHarvester_def Let_def cap_500
    by (simp add: modify_def emit_def split: option.splits)
next
  case False
  then show ?thesis
    unfolding updateHarvester_def Let_def cap_500
    by (simp add: modify_def split: list.splits)
qed

lemma aiLogic_power: "aiLogic u (s\<lparr> power_bal := p \<rparr>) = (aiLogic u s)\<lparr> power_bal := p \<rparr>"
  unfolding aiLogic_def by (simp add: modify_def split: option.splits)

lemma autoTarget_power: "autoTarget u (s\<lparr> power_bal := p \<rparr>) = (autoTarget u s)\<lparr> power_bal := p \<rparr>"
  unfolding autoTarget_def by (simp add: getNearestEnemy_power modify_def split: option.splits)

lemma attack_power:
  "attack u (s\<lparr> power_bal := p \<rparr>) = (fst (attack u s), (snd (attack u s))\<lparr> power_bal := p \<rparr>)"
  unfolding attack_def Let_def by (simp add: modify_def fireProjectile_def split: option.splits)

lemma coolDown_power: "coolDown u (s\<lparr> power_bal := p \<rparr>) = (coolDown u s)\<lparr> power_bal := p \<rparr>"
  unfolding coolDown_def by (simp add: modify_def)

lemma move_power: "move u mt (s\<lparr> power_bal := p \<rparr>) = (move u mt s)\<lparr> power_bal := p \<rparr>"
  unfolding move_def Let_def by (simp add: modify_def case_prod_beta split: option.splits)

lemma unitLogic_power: "unitLogic u (s\<lparr> power_bal := p \<rparr>) = (unitLogic u s)\<lparr> power_bal := p \<rparr>"
  unfolding unitLogic_def Let_def
  by (simp add: case_prod_beta updateHarvester_power aiLogic_power autoTarget_power attack_power
      coolDown_power move_power)

lemma fold_unitLogic_power:
  "fold unitLogic us (s\<lparr> power_bal := p \<rparr>) = (fold unitLogic us s)\<lparr> power_bal := p \<rparr>"
  by (induction us arbitrary: s) (simp_all add: unitLogic_power)

lemma unitsLogic_power: "unitsLogic (s\<lparr> power_bal := p \<rparr>) = (unitsLogic s)\<lparr> power_bal := p \<rparr>"
  by (simp add: unitsLogic_def fold_unitLogic_power)

lemma cannon_frozen: "power_bal s < 0 \<Longrightarrow> cannonLogic b s = s"
  by (simp add: cannonLogic_def)

lemma buildingsLogic_frozen: "power_bal s < 0 \<Longrightarrow> buildingsLogic s = s"
proof -
  assume a: "power_bal s < 0"
  have "fold cannonLogic bs s = s" for bs
    by (induction bs) (simp_all add: cannon_frozen a)
  then show ?thesis by (simp add: buildingsLogic_def)
qed

lemma production_frozen: "power_bal s < 0 \<Longrightarrow> production s = s"
  by (simp add: production_def)

subsection \<open>The deposit\<close>

lemma isPlayer_upd:
  "etype e = etype (st u) \<Longrightarrow> team e = team (st u) \<Longrightarrow> isPlayer ty (st(u := e)) = isPlayer ty st"
  by (rule ext) (simp add: isPlayer_def)

lemma updateHarvester_deposit:
  assumes "deposits u s"
  shows "credits (updateHarvester u s) = credits s + cargo (store s u)
    \<and> cargo (store (updateHarvester u s) u) = 0
    \<and> harvestState (store (updateHarvester u s) u) = idle"
proof -
  from assms obtain rf where rf: "find (isPlayer REFINERY (store s)) (buildings s) = Some rf"
    and near: "dist_vec (pos (store s u)) (pos (store s rf)) < 60"
    and full: "cargo (store s u) \<ge> 500"
    by (auto simp add: deposits_def split: option.splits)
  show ?thesis
    unfolding updateHarvester_def Let_def cap_500
    using full rf near
    by (auto simp add: store_modify isPlayer_upd emit_def)
qed

lemma updateHarvester_no_deposit:
  assumes "\<not> deposits u s"
  shows "credits (updateHarvester u s) = credits s"
  unfolding updateHarvester_def Let_def cap_500
  using assms
  by (auto simp add: deposits_def store_modify isPlayer_upd split: option.splits list.splits)

subsection \<open>Example states, evaluated\<close>

lemma initLevel_eval:
  "initLevel rnd = newEngine\<lparr> power_bal := 20, buildings := [0], nextRef := 1,
     store := (\<lambda>r. blank)(0 := createEntity 1000 1000 CONSTRUCTION_YARD player),
     orePatches := map (\<lambda>i. \<lparr> opos = \<lparr> vx = 1000 + (rnd (2 * i) - 0.5) * 1000,
                                           vy = 1000 + (rnd (2 * i + 1) - 0.5) * 1000 \<rparr>,
                                 amount = 1000 \<rparr>) [0..<20],
     calls := [UpdateUI] \<rparr>"
  by (simp add: initLevel_def newEngine_def pushBuilding_def calculatePower_def emit_def
      createEntity_sel mkdef_def Let_def)

lemma refineryPlaced_eval:
  "units refineryPlaced = [2] \<and> buildings refineryPlaced = [0, 1] \<and> nextRef refineryPlaced = 3
   \<and> credits refineryPlaced = 1000
   \<and> store refineryPlaced 2 = createEntity 60 100 HARVESTER player"
proof -
  have c: "\<not> collision REFINERY (initLevel rnd\<lparr> buildMode := Some REFINERY \<rparr>)" for rnd
    by (simp add: initLevel_eval newEngine_def collision_def buildSite_def footprint_def
        overlaps_def createEntity_sel createEntity_pos mkdef_def TILE_SIZE_def Let_def)
  show ?thesis
    unfolding refineryPlaced_def tryPlaceBuilding_def Let_def
    by (simp add: c mkdef_def)
       (simp add: initLevel_eval newEngine_def pushBuilding_def pushUnit_def calculatePower_def
         emit_def buildSite_def createEntity_pos mkdef_def TILE_SIZE_def case_prod_beta)
qed

lemma reachable_refineryPlaced: "reachable refineryPlaced"
  unfolding refineryPlaced_def by (intro r_place r_mode r_init)

subsection \<open>Commands, projectiles and the example states\<close>

lemma advanceQueue_no_spawner:
  assumes "productionQueues s key = Some q"
    and "q_total q \<le> q_progress q + 16"
    and "find (isPlayer (if key = barracks then BARRACKS else FACTORY) (store s)) (buildings s) = None"
  shows "advanceQueue key s = emit UpdateUI (s\<lparr> productionQueues := (productionQueues s)(key := None) \<rparr>)"
  using assms unfolding advanceQueue_def Let_def by (simp add: emit_def)

lemma orphan_production: "production (orphanOrder\<lparr> tick := tick orphanOrder + 1 \<rparr>) = orphanOrder_after"
proof -
  have "advanceQueue barracks (orphanOrder\<lparr> tick := tick orphanOrder + 1 \<rparr>) = orphanOrder_after"
    by (simp add: advanceQueue_def orphanOrder_def orphanOrder_after_def newEngine_def emit_def
        isPlayer_def createEntity_sel Let_def fun_eq_iff)
  moreover have "advanceQueue factory orphanOrder_after = orphanOrder_after"
    by (simp add: advanceQueue_def orphanOrder_after_def newEngine_def)
  moreover have "0 \<le> power_bal (orphanOrder\<lparr> tick := tick orphanOrder + 1 \<rparr>)"
    by (simp add: orphanOrder_def newEngine_def)
  ultimately show ?thesis by (simp add: production_def)
qed

lemma orphan_rest:
  "buildingsLogic orphanOrder_after = orphanOrder_after"
  "unitsLogic orphanOrder_after = orphanOrder_after"
  "projectilesLogic orphanOrder_after = orphanOrder_after"
  "cleanup orphanOrder_after = orphanOrder_after"
  "waveLogic rnd orphanOrder_after = orphanOrder_after"
  "winLoss orphanOrder_after = orphanOrder_after"
  by (simp_all add: buildingsLogic_def cannonLogic_def unitsLogic_def projectilesLogic_def
      cleanup_def waveLogic_def winLoss_def isPlayer_def orphanOrder_after_def newEngine_def
      createEntity_sel)

lemma orphan_update: "update rnd orphanOrder = orphanOrder_after"
  unfolding update_def by (simp only: orphan_production orphan_rest)

lemma queueUnit_rejections:
  "(credits s < d_cost (DEFINITIONS ty) \<longrightarrow>
      queueUnit ty key hb s = emit (Message ''Insufficient Funds'') s)
   \<and> (\<not> credits s < d_cost (DEFINITIONS ty) \<and> productionQueues s key \<noteq> None \<longrightarrow>
      queueUnit ty key hb s = emit (Message ''Production Busy'') s)
   \<and> (\<not> credits s < d_cost (DEFINITIONS ty) \<and> productionQueues s key = None \<and> \<not> hb key \<longrightarrow>
      queueUnit ty key hb s = emit (Message ''Building Required'') s)"
  by (simp add: queueUnit_def Let_def)

lemma tryPlaceBuilding_rejections:
  "(buildMode s = Some bm \<and> \<not> credits s < d_cost (DEFINITIONS bm) \<and> collision bm s \<longrightarrow>
      tryPlaceBuilding s = emit (Message ''Cannot build here!'') s)
   \<and> (buildMode s = Some bm \<and> credits s < d_cost (DEFINITIONS bm) \<longrightarrow>
      credits (tryPlaceBuilding s) = credits s
      \<and> productionQueues (tryPlaceBuilding s) = productionQueues s
      \<and> buildings (tryPlaceBuilding s) = buildings s \<and> units (tryPlaceBuilding s) = units s
      \<and> projectiles (tryPlaceBuilding s) = projectiles s \<and> store (tryPlaceBuilding s) = store s)"
  by (simp add: tryPlaceBuilding_def Let_def)

lemma busy_facts:
  "credits busyBroke = 50" "productionQueues busyBroke barracks \<noteq> None"
  "buildMode busyBroke = Some POWER_PLANT" "calls busyBroke = []"
  "credits busyRich = 2500" "productionQueues busyRich barracks \<noteq> None"
  "buildMode busyRich = Some POWER_PLANT" "calls busyRich = []"
  by (simp_all add: busyBroke_def busyRich_def newEngine_def)

lemma busyRich_collision: "collision POWER_PLANT busyRich"
  by (simp add: collision_def busyRich_def busyBroke_def newEngine_def buildSite_def footprint_def
      overlaps_def createEntity_sel createEntity_pos mkdef_def TILE_SIZE_def Let_def)

lemma commandUnit_keeps:
  "selectedHarvester (store s u) \<Longrightarrow> selectedHarvester (store (commandUnit None wm v s) u)"
  "ordered wm (store s u) \<Longrightarrow> ordered wm (store (commandUnit None wm v s) u)"
  by (auto simp add: commandUnit_def modify_def selectedHarvester_def ordered_def Let_def)

lemma commandUnit_orders:
  "selectedHarvester (store s u) \<Longrightarrow> ordered wm (store (commandUnit None wm u s) u)"
  by (simp add: commandUnit_def modify_def selectedHarvester_def ordered_def Let_def)

lemma fold_commandUnit_keeps:
  "ordered wm (store s u) \<Longrightarrow> ordered wm (store (fold (commandUnit None wm) us s) u)"
  by (induction us arbitrary: s) (simp_all add: commandUnit_keeps)

lemma fold_commandUnit_orders:
  "selectedHarvester (store s u) \<Longrightarrow> u \<in> set us \<Longrightarrow>
   ordered wm (store (fold (commandUnit None wm) us s) u)"
proof (induction us arbitrary: s)
  case Nil
  then show ?case by simp
next
  case (Cons v vs)
  show ?case
  proof (cases "u = v")
    case True
    then have "ordered wm (store (commandUnit None wm v s) u)"
      using Cons.prems(1) by (simp add: commandUnit_orders)
    then show ?thesis by (simp add: fold_commandUnit_keeps)
  next
    case False
    then have "u \<in> set vs" using Cons.prems(2) by simp
    moreover have "selectedHarvester (store (commandUnit None wm v s) u)"
      using Cons.prems(1) by (rule commandUnit_keeps)
    ultimately show ?thesis using Cons.IH by simp
  qed
qed

lemma issueCommand_orders:
  assumes "u \<in> set (units s)" and "selectedHarvester (store s u)" and "clickedEnemy s = None"
  shows "ordered (worldMouse s) (store (issueCommand s) u)"
proof -
  have "clickedEnemy (emit UpdateUI (s\<lparr> buildMode := None \<rparr>)) = None"
    using assms(3) by (simp add: clickedEnemy_def emit_def cong: option.case_cong)
  then show ?thesis
    unfolding issueCommand_def Let_def
    using assms(1,2) by (simp add: fold_commandUnit_orders emit_def)
qed

lemma updateHarvester_retakes:
  assumes "harvestState (store t u) = idle" and "cargo (store t u) < 500"
    and "orePatches t = ore # rest"
  shows "harvestState (store (updateHarvester u t) u)
           = (if dist_vec (pos (store t u)) (opos ore) < 30 then harvesting else moving_to_ore)
       \<and> targetPos (store (updateHarvester u t) u)
           = (if dist_vec (pos (store t u)) (opos ore) < 30 then None else Some (opos ore))"
  using assms unfolding updateHarvester_def Let_def cap_500
  by (simp add: modify_def)

lemma hq_sel: "etype hq = CONSTRUCTION_YARD" "team hq = player" "dead hq = False"
  by (simp_all add: hq_def createEntity_sel)

lemma oh_issue: "issueCommand orderedHarvester = orderedHarvester1"
  by (simp add: issueCommand_def clickedEnemy_def commandUnit_def modify_def emit_def
      orderedHarvester_def orderedHarvester1_def newEngine_def hq_sel createEntity_eval Let_def)

lemma oh_production: "production (orderedHarvester1\<lparr> tick := tick orderedHarvester1 + 1 \<rparr>)
    = orderedHarvester1\<lparr> tick := 1 \<rparr>"
  by (simp add: production_def advanceQueue_def orderedHarvester_def orderedHarvester1_def newEngine_def)

lemma oh_buildings: "buildingsLogic (orderedHarvester1\<lparr> tick := 1 \<rparr>) = orderedHarvester1\<lparr> tick := 1 \<rparr>"
  by (simp add: buildingsLogic_def cannonLogic_def orderedHarvester_def orderedHarvester1_def
      newEngine_def hq_sel)

lemma oh_harvester: "updateHarvester 1 (orderedHarvester1\<lparr> tick := 1 \<rparr>) = orderedHarvester2"
  by (simp add: updateHarvester_def js_or_def modify_def orderedHarvester_def orderedHarvester1_def
      orderedHarvester2_def newEngine_def createEntity_eval dist_vec_same_y Let_def)

lemma oh_unit: "unitLogic 1 (orderedHarvester1\<lparr> tick := 1 \<rparr>) = orderedHarvester2"
proof -
  have h: "etype (store (orderedHarvester1\<lparr> tick := 1 \<rparr>) 1) = HARVESTER
      \<and> team (store (orderedHarvester1\<lparr> tick := 1 \<rparr>) 1) = player"
    by (simp add: orderedHarvester_def orderedHarvester1_def newEngine_def createEntity_sel)
  have a: "aiLogic 1 orderedHarvester2 = orderedHarvester2"
    by (simp add: aiLogic_def orderedHarvester2_def orderedHarvester_def newEngine_def createEntity_sel)
  have b: "autoTarget 1 orderedHarvester2 = orderedHarvester2"
    by (simp add: autoTarget_def orderedHarvester2_def orderedHarvester_def newEngine_def createEntity_sel)
  have c: "attack 1 orderedHarvester2 = (None, orderedHarvester2)"
    by (simp add: attack_def orderedHarvester2_def orderedHarvester_def newEngine_def createEntity_sel)
  have d: "coolDown 1 orderedHarvester2 = orderedHarvester2"
    by (simp add: coolDown_def gt0_def orderedHarvester2_def orderedHarvester_def newEngine_def createEntity_sel)
  show ?thesis
    unfolding unitLogic_def Let_def
    by (simp only: h oh_harvester a b c d move_def simp_thms if_True case_prod_conv option.case)
qed

lemma oh_units: "unitsLogic (orderedHarvester1\<lparr> tick := 1 \<rparr>) = orderedHarvester2"
proof -
  have "units (orderedHarvester1\<lparr> tick := 1 \<rparr>) = [1]"
    by (simp add: orderedHarvester_def orderedHarvester1_def newEngine_def)
  then show ?thesis using oh_unit by (simp add: unitsLogic_def)
qed

lemma oh_rest:
  "projectilesLogic orderedHarvester2 = orderedHarvester2"
  "cleanup orderedHarvester2 = orderedHarvester2"
  "waveLogic rnd orderedHarvester2 = orderedHarvester2"
  "winLoss orderedHarvester2 = orderedHarvester2"
  by (simp_all add: projectilesLogic_def cleanup_def waveLogic_def winLoss_def isPlayer_def
      orderedHarvester2_def orderedHarvester_def newEngine_def createEntity_sel hq_sel)

lemma oh_update: "update rnd (issueCommand orderedHarvester) = orderedHarvester2"
  unfolding update_def by (simp only: oh_issue oh_production oh_buildings oh_units oh_rest)

lemma hq_pos: "pos hq = \<lparr> vx = 1000, vy = 1000 \<rparr>"
  by (simp add: hq_def createEntity_pos)

lemma doomed_tick1:
  "production (doomed\<lparr> tick := tick doomed + 1 \<rparr>) = doomed\<lparr> tick := 1 \<rparr>"
  "buildingsLogic (doomed\<lparr> tick := 1 \<rparr>) = doomed\<lparr> tick := 1 \<rparr>"
  "unitsLogic (doomed\<lparr> tick := 1 \<rparr>) = doomed\<lparr> tick := 1 \<rparr>"
  by (simp_all add: production_def advanceQueue_def buildingsLogic_def cannonLogic_def
      unitsLogic_def doomed_def newEngine_def hq_sel)

lemma doomed_impact:
  "projectilesLogic (doomed\<lparr> tick := 1 \<rparr>)
     = doomed\<lparr> tick := 1, projectiles := [],
               store := (\<lambda>r. blank)(0 := hq\<lparr> hp := -10, dead := True \<rparr>) \<rparr>"
  by (simp add: projectilesLogic_def projectileStep_def modify_def hit_def doomed_def newEngine_def
      hq_pos norm2_axis Let_def)

lemma doomed_sweep:
  "winLoss (waveLogic rnd (cleanup (doomed\<lparr> tick := 1, projectiles := [],
               store := (\<lambda>r. blank)(0 := hq\<lparr> hp := -10, dead := True \<rparr>) \<rparr>)))
     = doomed_after 1"
  by (simp add: cleanup_def waveLogic_def winLoss_def emit_def doomed_def doomed_after_def
      newEngine_def)

lemma doomed_update: "update rnd doomed = doomed_after 1"
  unfolding update_def by (simp only: doomed_tick1 doomed_impact doomed_sweep)

lemma doomed_after_update: "update rnd (doomed_after 1) = doomed_after 2"
proof -
  have "production (doomed_after 1\<lparr> tick := tick (doomed_after 1) + 1 \<rparr>)
          = (doomed_after 1)\<lparr> tick := 2 \<rparr>"
    by (simp add: production_def advanceQueue_def doomed_after_def newEngine_def)
  moreover have "buildingsLogic ((doomed_after 1)\<lparr> tick := 2 \<rparr>) = (doomed_after 1)\<lparr> tick := 2 \<rparr>"
    "unitsLogic ((doomed_after 1)\<lparr> tick := 2 \<rparr>) = (doomed_after 1)\<lparr> tick := 2 \<rparr>"
    "projectilesLogic ((doomed_after 1)\<lparr> tick := 2 \<rparr>) = (doomed_after 1)\<lparr> tick := 2 \<rparr>"
    "cleanup ((doomed_after 1)\<lparr> tick := 2 \<rparr>) = (doomed_after 1)\<lparr> tick := 2 \<rparr>"
    "waveLogic rnd ((doomed_after 1)\<lparr> tick := 2 \<rparr>) = (doomed_after 1)\<lparr> tick := 2 \<rparr>"
    by (simp_all add: buildingsLogic_def unitsLogic_def projectilesLogic_def cleanup_def
        waveLogic_def doomed_after_def newEngine_def)
  moreover have "winLoss ((doomed_after 1)\<lparr> tick := 2 \<rparr>) = doomed_after 2"
    by (simp add: winLoss_def emit_def doomed_after_def newEngine_def numeral_2_eq_2)
  ultimately show ?thesis unfolding update_def by simp
qed

lemma doomed_calls:
  "gameOverCalls doomed = 0" "hasHQ doomed" "gameOverCalls (doomed_after 1) = 1"
  "gameOverCalls (doomed_after 2) = 2" "\<not> hasHQ (doomed_after 1)"
  by (simp_all add: gameOverCalls_def hasHQ_def isPlayer_def doomed_def doomed_after_def
      newEngine_def hq_sel numeral_2_eq_2)

lemma norm2_nonneg: "0 \<le> norm2 dx dy"
  by (simp add: norm2_def)

lemma norm2_scale: "norm2 (k * dx) (k * dy) = \<bar>k\<bar> * norm2 dx dy"
proof -
  have "k * dx * (k * dx) + k * dy * (k * dy) = k\<^sup>2 * (dx * dx + dy * dy)"
    by (simp add: power2_eq_square algebra_simps)
  then show ?thesis
    by (simp add: norm2_def real_sqrt_mult)
qed

lemma step_closer:
  assumes "d = norm2 dx dy" and "10 \<le> d"
  shows "norm2 (dx - (dx / d) * 10) (dy - (dy / d) * 10) = d - 10"
proof -
  have pos: "0 < d" using assms(2) by simp
  have "dx - (dx / d) * 10 = (1 - 10 / d) * dx" "dy - (dy / d) * 10 = (1 - 10 / d) * dy"
    by (simp_all add: algebra_simps)
  then have "norm2 (dx - (dx / d) * 10) (dy - (dy / d) * 10) = \<bar>1 - 10 / d\<bar> * d"
    using assms(1) by (simp add: norm2_scale)
  also have "\<bar>1 - 10 / d\<bar> = 1 - 10 / d"
    using assms(2) pos by (simp add: pos_divide_le_eq)
  also have "(1 - 10 / d) * d = d - 10"
    using pos by (simp add: algebra_simps)
  finally show ?thesis .
qed

lemma norm2_triangle:
  "norm2 (a - c) (b - d) \<le> norm2 (a - e) (b - f) + norm2 (e - c) (f - d)"
  using real_sqrt_sum_squares_triangle_ineq [of "a - e" "e - c" "b - f" "f - d"]
  by (simp add: norm2_def power2_eq_square)

lemma projectileStep_hit:
  "toTarget p s < 10 \<Longrightarrow> projectileStep p (kept, s) = (kept, modify (target p) (hit (pdamage p)) s)"
  by (simp add: projectileStep_def toTarget_def Let_def)

lemma projectileStep_fly:
  "\<not> toTarget p s < 10 \<Longrightarrow> projectileStep p (kept, s) = (advanced p s # kept, s)"
  by (simp add: projectileStep_def toTarget_def advanced_def Let_def)

lemma toTarget_advanced:
  assumes "\<not> toTarget p s < 10"
  shows "toTarget (advanced p s) s = toTarget p s - 10"
proof -
  define dx where "dx = vx (pos (store s (target p))) - vx (ppos p)"
  define dy where "dy = vy (pos (store s (target p))) - vy (ppos p)"
  have d: "toTarget p s = norm2 dx dy" by (simp add: toTarget_def dx_def dy_def)
  have "toTarget (advanced p s) s
          = norm2 (dx - (dx / toTarget p s) * 10) (dy - (dy / toTarget p s) * 10)"
    by (simp add: toTarget_def advanced_def dx_def dy_def algebra_simps)
  also have "\<dots> = toTarget p s - 10"
    using assms by (intro step_closer d) simp
  finally show ?thesis .
qed

lemma flight_lands:
  "nat \<lfloor>toTarget p s / 10\<rfloor> = n \<Longrightarrow> flight (Suc n) p s = None"
proof (induction n arbitrary: p)
  case 0
  then have "\<lfloor>toTarget p s / 10\<rfloor> \<le> 0" by simp
  then have "toTarget p s / 10 < 1" by (simp add: floor_le_iff)
  then have "toTarget p s < 10" by simp
  then show ?case by (simp add: projectileStep_hit)
next
  case (Suc n)
  then have one: "1 \<le> \<lfloor>toTarget p s / 10\<rfloor>" by arith
  then have "1 \<le> toTarget p s / 10" by (simp add: le_floor_iff)
  then have far: "\<not> toTarget p s < 10" by simp
  have "\<lfloor>(toTarget p s - 10) / 10\<rfloor> = \<lfloor>toTarget p s / 10\<rfloor> - 1"
    by (simp add: diff_divide_distrib)
  then have "nat \<lfloor>toTarget (advanced p s) s / 10\<rfloor> = n"
    using Suc.prems one far by (simp add: toTarget_advanced)
  then have "flight (Suc n) (advanced p s) s = None" by (rule Suc.IH)
  then show ?case using far by (simp add: projectileStep_fly)
qed

lemma idleTank_sel:
  "etype idleTank = TANK" "team idleTank = player" "targetPos idleTank = None"
  "targetUnit idleTank = None" "cooldown idleTank = Some 0" "dead idleTank = False"
  "pos idleTank = \<lparr> vx = 81, vy = 0 \<rparr>"
  by (simp_all add: idleTank_def createEntity_sel createEntity_pos)

lemma runner_sel:
  "etype (runner x) = TANK" "team (runner x) = player"
  "targetPos (runner x) = Some \<lparr> vx = 1000, vy = 0 \<rparr>"
  "targetUnit (runner x) = None" "cooldown (runner x) = Some 0" "dead (runner x) = False"
  "pos (runner x) = \<lparr> vx = x, vy = 0 \<rparr>"
  by (simp_all add: runner_def createEntity_sel createEntity_pos)

lemma crowd_team:
  "r \<in> set (units (crowdAt x px n)) \<Longrightarrow> team (store (crowdAt x px n) r) = player"
  "r \<in> set (buildings (crowdAt x px n)) \<Longrightarrow> team (store (crowdAt x px n) r) = player"
  by (auto simp add: crowdAt_def newEngine_def idleTank_sel runner_sel hq_sel)

lemma nearer_no_enemy:
  "\<forall>u\<in>set us. team (st u) \<noteq> enemy \<Longrightarrow> fold (nearer st p) us acc = acc"
  by (induction us arbitrary: acc) (simp_all add: nearer_def split: prod.splits)

lemma crowd_no_enemy: "getNearestEnemy (crowdAt x px n) p rng = None"
proof -
  have "\<forall>u\<in>set (units (crowdAt x px n)). team (store (crowdAt x px n) u) \<noteq> enemy"
    "\<forall>u\<in>set (buildings (crowdAt x px n)). team (store (crowdAt x px n) u) \<noteq> enemy"
    by (simp_all add: crowd_team)
  then show ?thesis by (simp add: getNearestEnemy_def nearer_no_enemy)
qed

lemma crowd_idle:
  assumes "2 \<le> r" and "r < 13"
  shows "unitLogic r (crowdAt x px n) = crowdAt x px n"
proof -
  have st: "store (crowdAt x px n) r = idleTank"
    using assms by (simp add: crowdAt_def newEngine_def)
  have a: "aiLogic r (crowdAt x px n) = crowdAt x px n"
    by (simp add: aiLogic_def st idleTank_sel)
  have b: "autoTarget r (crowdAt x px n) = crowdAt x px n"
    by (simp add: autoTarget_def crowd_no_enemy)
  have c: "attack r (crowdAt x px n) = (None, crowdAt x px n)"
    by (simp add: attack_def st idleTank_sel)
  have d: "coolDown r (crowdAt x px n) = crowdAt x px n"
    by (simp add: coolDown_def gt0_def st idleTank_sel)
  show ?thesis
    unfolding unitLogic_def Let_def
    by (simp add: st idleTank_sel a b c d move_def)
qed

lemma crowd_runner: "unitLogic 1 (crowdAt 100 px n) = crowdAt (110 + 19 / 20) px n"
proof -
  have st: "store (crowdAt 100 px n) 1 = runner 100"
    by (simp add: crowdAt_def newEngine_def)
  have a: "aiLogic 1 (crowdAt 100 px n) = crowdAt 100 px n"
    using st by (simp add: aiLogic_def runner_sel)
  have b: "autoTarget 1 (crowdAt 100 px n) = crowdAt 100 px n"
    using st by (simp add: autoTarget_def runner_sel)
  have c: "attack 1 (crowdAt 100 px n) = (Some \<lparr> vx = 1000, vy = 0 \<rparr>, crowdAt 100 px n)"
    using st by (simp add: attack_def runner_sel)
  have d: "coolDown 1 (crowdAt 100 px n) = crowdAt 100 px n"
    using st by (simp add: coolDown_def gt0_def runner_sel)
  have rep: "fold (repel (store (crowdAt 100 px n)) 1) (units (crowdAt 100 px n)) (0, 0) = (209, 0)"
    by (simp add: repel_def crowdAt_def newEngine_def idleTank_sel runner_sel dist_vec_same_y)
  have m: "move 1 (Some \<lparr> vx = 1000, vy = 0 \<rparr>) (crowdAt 100 px n) = crowdAt (110 + 19 / 20) px n"
    unfolding move_def Let_def
    using st rep
    by (simp add: runner_sel norm2_axis mkdef_def js_or_def)
       (simp add: modify_def crowdAt_def newEngine_def runner_def createEntity_eval)
  show ?thesis
    unfolding unitLogic_def Let_def
    using st a b c d m by (simp add: runner_sel)
qed

lemma crowd_units: "unitsLogic (crowdAt 100 px n) = crowdAt (110 + 19 / 20) px n"
proof -
  have u: "units (crowdAt 100 px n) = 1 # [2, 3, 4, 5, 6, 7, 8, 9, 10, 11, 12]"
    by (simp add: crowdAt_def newEngine_def)
  have "fold unitLogic [2, 3, 4, 5, 6, 7, 8, 9, 10, 11, 12] (crowdAt x px n) = crowdAt x px n" for x
    by (simp add: crowd_idle)
  then show ?thesis
    unfolding unitsLogic_def u by (simp only: fold.simps o_apply crowd_runner)
qed

lemma crowd_before:
  "production (crowdAt x px n) = crowdAt x px n"
  "buildingsLogic (crowdAt x px n) = crowdAt x px n"
  by (simp_all add: production_def advanceQueue_def buildingsLogic_def cannonLogic_def
      crowdAt_def newEngine_def hq_sel)

lemma crowd_shell: "projectilesLogic (crowdAt (110 + 19 / 20) 50 n) = crowdAt (110 + 19 / 20) 60 n"
  by (simp add: projectilesLogic_def projectileStep_def crowdAt_def newEngine_def shell_def
      runner_sel norm2_axis Let_def)

lemma crowd_after:
  "cleanup (crowdAt x px n) = crowdAt x px n"
  "waveLogic rnd (crowdAt x px 1) = crowdAt x px 1"
  "winLoss (crowdAt x px n) = crowdAt x px n"
proof -
  have "filter (\<lambda>u. \<not> dead (store (crowdAt x px n) u)) (units (crowdAt x px n)) = units (crowdAt x px n)"
    by (simp add: crowdAt_def newEngine_def idleTank_sel runner_sel)
  moreover have "filter (\<lambda>u. \<not> dead (store (crowdAt x px n) u)) (buildings (crowdAt x px n))
      = buildings (crowdAt x px n)"
    by (simp add: crowdAt_def newEngine_def hq_sel)
  ultimately show "cleanup (crowdAt x px n) = crowdAt x px n"
    by (simp add: cleanup_def)
  show "waveLogic rnd (crowdAt x px 1) = crowdAt x px 1"
    by (simp add: waveLogic_def crowdAt_def newEngine_def)
  show "winLoss (crowdAt x px n) = crowdAt x px n"
    by (simp add: winLoss_def isPlayer_def crowdAt_def newEngine_def hq_sel)
qed

lemma crowd_update: "update rnd crowd = crowdAt (110 + 19 / 20) 60 1"
proof -
  have "crowd\<lparr> tick := tick crowd + 1 \<rparr> = crowdAt 100 50 1"
    by (simp add: crowd_def crowdAt_def newEngine_def)
  then show ?thesis
    unfolding update_def
    by (simp only: crowd_before crowd_units crowd_shell crowd_after)
qed

lemma crowd_distances:
  "projectiles crowd = [shell 50]" "toTarget (shell 50) crowd = 50"
  "projectiles (crowdAt (110 + 19 / 20) 60 1) = [shell 60]"
  "toTarget (shell 60) (crowdAt (110 + 19 / 20) 60 1) = 50 + 19 / 20"
  "target (shell 60) = target (shell 50)"
  by (simp_all add: crowd_def crowdAt_def newEngine_def shell_def toTarget_def runner_sel norm2_axis)

subsection \<open>Phases that keep cargo, harvest state and credits\<close>

lemma keeps_refl: "keeps s s"
  by (simp add: keeps_def)

lemma keeps_modify:
  "(\<And>e. cargo (f e) = cargo e \<and> harvestState (f e) = harvestState e) \<Longrightarrow> keeps t s
   \<Longrightarrow> keeps t (modify r f s)"
  by (simp add: keeps_def modify_def)

lemma keeps_emit: "keeps t s \<Longrightarrow> keeps t (emit e s)"
  by (simp add: keeps_def emit_def)

lemma keeps_pushUnit: "keeps t s \<Longrightarrow> keeps t (pushUnit e s)"
  by (simp add: keeps_def pushUnit_def)

lemma keeps_fireProjectile: "keeps t s \<Longrightarrow> keeps t (fireProjectile a b d s)"
  by (simp add: keeps_def fireProjectile_def)

lemma keeps_fields [simp]:
  "keeps t (s\<lparr> productionQueues := q \<rparr>) = keeps t s"
  "keeps t (s\<lparr> tick := n \<rparr>) = keeps t s"
  "keeps t (s\<lparr> wave := n \<rparr>) = keeps t s"
  "keeps t (s\<lparr> projectiles := ps \<rparr>) = keeps t s"
  "keeps t (s\<lparr> units := us \<rparr>) = keeps t s"
  "keeps t (s\<lparr> buildings := bs \<rparr>) = keeps t s"
  by (simp_all add: keeps_def)

lemma keeps_entity [simp]:
  "cargo (decr e) = cargo e" "harvestState (decr e) = harvestState e"
  "cargo (hit d e) = cargo e" "harvestState (hit d e) = harvestState e"
  by (simp_all add: decr_def hit_def Let_def)

lemmas keeps_intros = keeps_modify keeps_emit keeps_pushUnit keeps_fireProjectile

lemma keeps_advanceQueue: "keeps t s \<Longrightarrow> keeps t (advanceQueue key s)"
  unfolding advanceQueue_def Let_def
  by (simp add: keeps_intros split: option.splits)

lemma keeps_production: "keeps t s \<Longrightarrow> keeps t (production s)"
  by (simp add: production_def keeps_advanceQueue)

lemma keeps_cannonLogic: "keeps t s \<Longrightarrow> keeps t (cannonLogic b s)"
  unfolding cannonLogic_def
  by (simp add: keeps_intros split: option.splits)

lemma keeps_fold: "(\<And>x s. keeps t s \<Longrightarrow> keeps t (f x s)) \<Longrightarrow> keeps t s \<Longrightarrow> keeps t (fold f xs s)"
  by (induction xs arbitrary: s) simp_all

lemma keeps_buildingsLogic: "keeps t s \<Longrightarrow> keeps t (buildingsLogic s)"
  unfolding buildingsLogic_def by (rule keeps_fold) (simp_all add: keeps_cannonLogic)

lemma keeps_projectileStep: "keeps t (snd acc) \<Longrightarrow> keeps t (snd (projectileStep p acc))"
  unfolding projectileStep_def Let_def
  by (simp add: case_prod_beta keeps_intros)

lemma keeps_foldr_projectileStep: "keeps t s \<Longrightarrow> keeps t (snd (foldr projectileStep ps ([], s)))"
  by (induction ps) (simp_all add: keeps_projectileStep)

lemma keeps_projectilesLogic: "keeps t s \<Longrightarrow> keeps t (projectilesLogic s)"
  unfolding projectilesLogic_def Let_def
  by (simp add: case_prod_beta keeps_foldr_projectileStep)

lemma keeps_cleanup: "keeps t s \<Longrightarrow> keeps t (cleanup s)"
  by (simp add: cleanup_def)

lemma keeps_spawn: "keeps t s \<Longrightarrow> keeps t (fold (\<lambda>i. pushUnit (g i)) xs s)"
  by (induction xs arbitrary: s) (simp_all add: keeps_pushUnit)

lemma keeps_waveLogic: "keeps t s \<Longrightarrow> keeps t (waveLogic rnd s)"
  unfolding waveLogic_def Let_def
  by (auto intro!: keeps_emit keeps_spawn)

lemma keeps_winLoss: "keeps t s \<Longrightarrow> keeps t (winLoss s)"
  by (simp add: winLoss_def keeps_emit split: option.splits)

subsection \<open>One unit's turn\<close>

lemma aiLogic_view:
  "credits (aiLogic u t) = credits t" "cargo (store (aiLogic u t) v) = cargo (store t v)"
  "harvestState (store (aiLogic u t) v) = harvestState (store t v)"
  "v \<noteq> u \<Longrightarrow> store (aiLogic u t) v = store t v"
  by (simp_all add: aiLogic_def modify_def split: option.splits)

lemma autoTarget_view:
  "credits (autoTarget u t) = credits t" "cargo (store (autoTarget u t) v) = cargo (store t v)"
  "harvestState (store (autoTarget u t) v) = harvestState (store t v)"
  "v \<noteq> u \<Longrightarrow> store (autoTarget u t) v = store t v"
  by (simp_all add: autoTarget_def modify_def split: option.splits)

lemma attack_view:
  "credits (snd (attack u t)) = credits t" "cargo (store (snd (attack u t)) v) = cargo (store t v)"
  "harvestState (store (snd (attack u t)) v) = harvestState (store t v)"
  "v \<noteq> u \<Longrightarrow> store (snd (attack u t)) v = store t v"
  by (simp_all add: attack_def modify_def fireProjectile_def Let_def split: option.splits)

lemma coolDown_view:
  "credits (coolDown u t) = credits t" "cargo (store (coolDown u t) v) = cargo (store t v)"
  "harvestState (store (coolDown u t) v) = harvestState (store t v)"
  "v \<noteq> u \<Longrightarrow> store (coolDown u t) v = store t v"
  by (simp_all add: coolDown_def modify_def)

lemma move_view:
  "credits (move u mt t) = credits t" "cargo (store (move u mt t) v) = cargo (store t v)"
  "harvestState (store (move u mt t) v) = harvestState (store t v)"
  "v \<noteq> u \<Longrightarrow> store (move u mt t) v = store t v"
  by (simp_all add: move_def modify_def Let_def case_prod_beta split: option.splits)

lemma updateHarvester_other: "v \<noteq> u \<Longrightarrow> store (updateHarvester u t) v = store t v"
proof (cases "cargo (store t u) \<ge> 500")
  case True
  assume "v \<noteq> u"
  with True show ?thesis
    unfolding updateHarvester_def Let_def cap_500
    by (simp add: modify_def emit_def split: option.splits)
next
  case False
  assume "v \<noteq> u"
  with False show ?thesis
    unfolding updateHarvester_def Let_def cap_500
    by (simp add: modify_def split: list.splits)
qed

lemma unitLogic_view:
  "credits (unitLogic u t) = credits (harvesterTurn u t)"
  "cargo (store (unitLogic u t) u) = cargo (store (harvesterTurn u t) u)"
  "harvestState (store (unitLogic u t) u) = harvestState (store (harvesterTurn u t) u)"
  "v \<noteq> u \<Longrightarrow> store (unitLogic u t) v = store t v"
  unfolding unitLogic_def Let_def harvesterTurn_def [symmetric]
  by (simp_all add: case_prod_beta move_view coolDown_view attack_view autoTarget_view aiLogic_view
      harvesterTurn_def updateHarvester_other)

lemma updateHarvester_quiet:
  assumes "\<not> deposits u t"
  shows "cargo (store t u) \<le> cargo (store (updateHarvester u t) u)
    \<and> (harvestState (store (updateHarvester u t) u) = idle \<longrightarrow> harvestState (store t u) = idle)"
proof (cases "cargo (store t u) \<ge> 500")
  case True
  with assms show ?thesis
    unfolding updateHarvester_def Let_def cap_500
    by (auto simp add: deposits_def store_modify isPlayer_upd split: option.splits)
next
  case False
  then show ?thesis
    unfolding updateHarvester_def Let_def cap_500
    by (simp add: store_modify split: list.splits)
qed

lemma harvesterTurn_ok:
  assumes "ent_ok (store t u)"
  shows "turn_ok (store t u) (store (harvesterTurn u t) u)
    \<and> credits (harvesterTurn u t)
        = credits t + (if cargo (store (harvesterTurn u t) u) < cargo (store t u) then 500 else 0)"
proof (cases "etype (store t u) = HARVESTER \<and> team (store t u) = player")
  case False
  then show ?thesis by (auto simp add: harvesterTurn_def turn_ok_def)
next
  case True
  then have h: "harvesterTurn u t = updateHarvester u t" by (simp add: harvesterTurn_def)
  have le: "cargo (store t u) \<le> 500" using assms by (simp add: ent_ok_def)
  show ?thesis
  proof (cases "deposits u t")
    case d: True
    then have "cargo (store t u) = 500" using le by (simp add: deposits_def)
    then show ?thesis
      using True updateHarvester_deposit [OF d] by (simp add: h turn_ok_def)
  next
    case d: False
    show ?thesis
      using updateHarvester_quiet [OF d] updateHarvester_no_deposit [OF d]
      by (auto simp add: h turn_ok_def)
  qed
qed

lemma unitLogic_turn:
  assumes "ent_ok (store t u)"
  shows "turn_ok (store t u) (store (unitLogic u t) u)
    \<and> credits (unitLogic u t)
        = credits t + (if cargo (store (unitLogic u t) u) < cargo (store t u) then 500 else 0)"
  using harvesterTurn_ok [OF assms]
  by (simp add: unitLogic_view turn_ok_def)

lemma updateHarvester_cycle:
  "cycle_step (tick t) (orePatches t \<noteq> []) (store t u) (store (updateHarvester u t) u)"
proof (cases "cargo (store t u) \<ge> 500")
  case True
  then show ?thesis
    unfolding updateHarvester_def Let_def cap_500 cycle_step_def
    by (simp add: store_modify split: option.splits)
next
  case False
  then show ?thesis
    unfolding updateHarvester_def Let_def cap_500 cycle_step_def
    by (simp add: store_modify split: list.splits)
qed

lemma unitLogic_turn_rel:
  "turn_rel (tick t) (orePatches t \<noteq> []) (store t u) (store (unitLogic u t) u)"
  using updateHarvester_cycle [of t u]
  by (simp add: turn_rel_def cycle_step_def unitLogic_view harvesterTurn_def)

lemma unitLogic_clock: "tick (unitLogic u t) = tick t \<and> orePatches (unitLogic u t) = orePatches t"
proof -
  have h: "tick (updateHarvester u t) = tick t \<and> orePatches (updateHarvester u t) = orePatches t"
    unfolding updateHarvester_def Let_def
    by (simp add: modify_def emit_def split: option.splits list.splits)
  have a: "tick (aiLogic u x) = tick x \<and> orePatches (aiLogic u x) = orePatches x" for x
    by (simp add: aiLogic_def modify_def split: option.splits)
  have b: "tick (autoTarget u x) = tick x \<and> orePatches (autoTarget u x) = orePatches x" for x
    by (simp add: autoTarget_def modify_def split: option.splits)
  have c: "tick (snd (attack u x)) = tick x \<and> orePatches (snd (attack u x)) = orePatches x" for x
    by (simp add: attack_def modify_def fireProjectile_def Let_def split: option.splits)
  have d: "tick (coolDown u x) = tick x \<and> orePatches (coolDown u x) = orePatches x" for x
    by (simp add: coolDown_def modify_def)
  have e: "tick (move u mt x) = tick x \<and> orePatches (move u mt x) = orePatches x" for x mt
    by (simp add: move_def modify_def Let_def case_prod_beta split: option.splits)
  show ?thesis
    unfolding unitLogic_def Let_def
    by (simp add: case_prod_beta a b c d e h)
qed

lemma fold_unitLogic_account:
  assumes "distinct xs" and "engine_inv t" and "\<forall>u\<in>set xs. u < nextRef t"
  shows "credits (fold unitLogic xs t)
           = credits t + 500 * int (length (filter (unloads t (fold unitLogic xs t)) xs))
    \<and> (\<forall>v. v \<notin> set xs \<longrightarrow> store (fold unitLogic xs t) v = store t v)
    \<and> (\<forall>u\<in>set xs. turn_ok (store t u) (store (fold unitLogic xs t) u)
                    \<and> turn_rel (tick t) (orePatches t \<noteq> []) (store t u)
                          (store (fold unitLogic xs t) u))"
  using assms
proof (induction xs arbitrary: t)
  case Nil
  then show ?case by simp
next
  case (Cons x xs)
  define t1 where "t1 = unitLogic x t"
  define t2 where "t2 = fold unitLogic xs t1"
  have x: "x < nextRef t" and xs: "\<forall>u\<in>set xs. u < nextRef t"
    and nx: "x \<notin> set xs" and dx: "distinct xs"
    using Cons.prems by simp_all
  have ok: "ent_ok (store t x)" using Cons.prems(2) x by (simp add: engine_inv_def)
  have i1: "engine_inv t1" unfolding t1_def using Cons.prems(2) x by (rule inv_unitLogic)
  have n1: "nextRef t1 = nextRef t" by (simp add: t1_def shape_unitLogic)
  have other: "store t1 v = store t v" if "v \<noteq> x" for v
    using that by (simp add: t1_def unitLogic_view)
  have clock: "tick t1 = tick t" "orePatches t1 = orePatches t"
    by (simp_all add: t1_def unitLogic_clock)
  have rel: "turn_rel (tick t) (orePatches t \<noteq> []) (store t x) (store t1 x)"
    unfolding t1_def by (rule unitLogic_turn_rel)
  have turn: "turn_ok (store t x) (store t1 x)"
    and cr: "credits t1 = credits t + (if cargo (store t1 x) < cargo (store t x) then 500 else 0)"
    using unitLogic_turn [OF ok] by (simp_all add: t1_def)
  have ih: "credits t2 = credits t1 + 500 * int (length (filter (unloads t1 t2) xs))"
    "\<forall>v. v \<notin> set xs \<longrightarrow> store t2 v = store t1 v"
    "\<forall>u\<in>set xs. turn_ok (store t1 u) (store t2 u)
                \<and> turn_rel (tick t) (orePatches t \<noteq> []) (store t1 u) (store t2 u)"
    using Cons.IH [OF dx i1] xs n1 by (simp_all add: t2_def clock)
  have same: "store t1 u = store t u" if "u \<in> set xs" for u
    using that nx by (auto intro: other)
  have keepx: "store t2 x = store t1 x" using ih(2) nx by simp
  have f: "filter (unloads t1 t2) xs = filter (unloads t t2) xs"
    by (rule filter_cong) (simp_all add: unloads_def same)
  have hd: "unloads t t2 x \<longleftrightarrow> cargo (store t1 x) < cargo (store t x)"
    by (simp add: unloads_def keepx)
  have c: "credits t2 = credits t + 500 * int (length (filter (unloads t t2) (x # xs)))"
    using ih(1) cr by (simp add: f hd)
  have o: "\<forall>v. v \<notin> set (x # xs) \<longrightarrow> store t2 v = store t v"
    using ih(2) other by simp
  have u: "\<forall>u\<in>set (x # xs). turn_ok (store t u) (store t2 u)
                \<and> turn_rel (tick t) (orePatches t \<noteq> []) (store t u) (store t2 u)"
    using ih(3) turn rel by (simp add: keepx same)
  from c o u show ?case by (simp add: t1_def t2_def)
qed

subsection \<open>The unit list holds distinct allocated objects\<close>

lemma wf_units_simps [simp]:
  "wf_units (modify r f s) = wf_units s"
  "wf_units (emit e s) = wf_units s"
  "wf_units (fireProjectile a b d s) = wf_units s"
  "wf_units (s\<lparr> productionQueues := q \<rparr>) = wf_units s"
  "wf_units (s\<lparr> tick := n \<rparr>) = wf_units s"
  "wf_units (s\<lparr> wave := n \<rparr>) = wf_units s"
  "wf_units (s\<lparr> credits := n \<rparr>) = wf_units s"
  "wf_units (s\<lparr> projectiles := ps \<rparr>) = wf_units s"
  "wf_units (s\<lparr> buildMode := m \<rparr>) = wf_units s"
  "wf_units (s\<lparr> worldMouse := v \<rparr>) = wf_units s"
  "wf_units (s\<lparr> selectionStart := v \<rparr>) = wf_units s"
  "wf_units (s\<lparr> orePatches := os \<rparr>) = wf_units s"
  "wf_units (s\<lparr> power_bal := n \<rparr>) = wf_units s"
  "wf_units (s\<lparr> buildings := bs \<rparr>) = wf_units s"
  by (simp_all add: wf_units_def modify_def emit_def fireProjectile_def)

lemma wf_units_pushUnit: "wf_units s \<Longrightarrow> wf_units (pushUnit e s)"
  by (auto simp add: wf_units_def pushUnit_def less_Suc_eq)

lemma wf_units_pushBuilding: "wf_units s \<Longrightarrow> wf_units (pushBuilding e s)"
  by (auto simp add: wf_units_def pushBuilding_def less_Suc_eq)

lemma wf_units_advanceQueue: "wf_units s \<Longrightarrow> wf_units (advanceQueue key s)"
  unfolding advanceQueue_def Let_def
  by (simp add: wf_units_pushUnit split: option.splits)

lemma wf_units_production: "wf_units s \<Longrightarrow> wf_units (production s)"
  by (simp add: production_def wf_units_advanceQueue)

lemma wf_units_cannonLogic: "wf_units s \<Longrightarrow> wf_units (cannonLogic b s)"
  unfolding cannonLogic_def by (simp split: option.splits)

lemma wf_units_buildingsLogic: "wf_units s \<Longrightarrow> wf_units (buildingsLogic s)"
  unfolding buildingsLogic_def by (rule fold_preserves) (simp_all add: wf_units_cannonLogic)

lemma wf_units_unitLogic: "wf_units s \<Longrightarrow> wf_units (unitLogic u s)"
  by (simp add: wf_units_def shape_unitLogic)

lemma wf_units_unitsLogic: "wf_units s \<Longrightarrow> wf_units (unitsLogic s)"
  unfolding unitsLogic_def by (rule fold_preserves) (simp_all add: wf_units_unitLogic)

lemma wf_units_projectileStep:
  "wf_units (snd acc) \<Longrightarrow> wf_units (snd (projectileStep p acc))"
  unfolding projectileStep_def Let_def by (simp add: case_prod_beta)

lemma wf_units_projectilesLogic: "wf_units s \<Longrightarrow> wf_units (projectilesLogic s)"
proof -
  assume a: "wf_units s"
  have "wf_units (snd (foldr projectileStep ps ([], s)))" for ps
    by (induction ps) (simp_all add: a wf_units_projectileStep)
  then show ?thesis by (simp add: projectilesLogic_def case_prod_beta)
qed

lemma wf_units_cleanup: "wf_units s \<Longrightarrow> wf_units (cleanup s)"
  by (simp add: wf_units_def cleanup_def)

lemma wf_units_spawn: "wf_units s \<Longrightarrow> wf_units (fold (\<lambda>i. pushUnit (g i)) xs s)"
  by (induction xs arbitrary: s) (simp_all add: wf_units_pushUnit)

lemma wf_units_waveLogic: "wf_units s \<Longrightarrow> wf_units (waveLogic rnd s)"
  unfolding waveLogic_def Let_def by (simp add: wf_units_spawn)

lemma wf_units_winLoss: "wf_units s \<Longrightarrow> wf_units (winLoss s)"
  by (simp add: winLoss_def split: option.splits)

lemma wf_units_update: "wf_units s \<Longrightarrow> wf_units (update rnd s)"
  unfolding update_def
  by (intro wf_units_winLoss wf_units_waveLogic wf_units_cleanup wf_units_projectilesLogic
      wf_units_unitsLogic wf_units_buildingsLogic wf_units_production) simp

lemma wf_units_calculatePower: "wf_units (calculatePower s) = wf_units s"
  by (simp add: calculatePower_def case_prod_beta)

lemma wf_units_tryPlaceBuilding: "wf_units s \<Longrightarrow> wf_units (tryPlaceBuilding s)"
  unfolding tryPlaceBuilding_def Let_def
  by (simp add: wf_units_calculatePower wf_units_pushUnit wf_units_pushBuilding
      split: option.splits)

lemma wf_units_issueCommand: "wf_units s \<Longrightarrow> wf_units (issueCommand s)"
  unfolding issueCommand_def Let_def
  by (rule fold_preserves) (simp_all add: commandUnit_def split: option.splits)

lemma wf_units_selectUnits: "wf_units s \<Longrightarrow> wf_units (selectUnits s)"
proof -
  assume "wf_units s"
  then have "wf_units (fold (selectUnit c x1 y1 x2 y2) us s)" for c x1 y1 x2 y2 us
    by (rule fold_preserves) (simp add: selectUnit_def)
  then show ?thesis by (simp add: selectUnits_def Let_def)
qed

lemma wf_units_queueUnit: "wf_units s \<Longrightarrow> wf_units (queueUnit ty key hb s)"
  by (simp add: queueUnit_def Let_def wf_units_def)

lemma wf_units_initLevel: "wf_units (initLevel rnd)"
  by (simp add: initLevel_def Let_def wf_units_calculatePower wf_units_pushBuilding)
     (simp add: wf_units_def pushBuilding_def newEngine_def)

lemma reachable_wf_units: "reachable s \<Longrightarrow> wf_units s"
  by (induction rule: reachable.induct)
     (simp_all add: wf_units_initLevel wf_units_update wf_units_tryPlaceBuilding
       wf_units_issueCommand wf_units_selectUnits wf_units_queueUnit)

subsection \<open>Credits over a tick\<close>

lemma fresh_units_refl: "fresh_units s s"
  by (simp add: fresh_units_def)

lemma fresh_units_advanceQueue: "fresh_units s (advanceQueue key s)"
  unfolding advanceQueue_def Let_def fresh_units_def
  by (simp add: pushUnit_def emit_def createEntity_sel split: option.splits)

lemma fresh_units_trans:
  assumes "fresh_units s t" and "fresh_units t u" and "keeps t u"
  shows "fresh_units s u"
proof -
  from assms(1) obtain N where N: "units t = units s @ N"
    "\<forall>n\<in>set N. nextRef s \<le> n \<and> n < nextRef t \<and> cargo (store t n) = 0"
    by (auto simp add: fresh_units_def)
  from assms(2) obtain M where M: "units u = units t @ M"
    "\<forall>n\<in>set M. nextRef t \<le> n \<and> n < nextRef u \<and> cargo (store u n) = 0"
    by (auto simp add: fresh_units_def)
  have le: "nextRef t \<le> nextRef u" using assms(3) by (simp add: keeps_def)
  have st: "nextRef s \<le> nextRef t"
    using assms(1) by (simp add: fresh_units_def)
  have "\<forall>n\<in>set (N @ M). nextRef s \<le> n \<and> n < nextRef u \<and> cargo (store u n) = 0"
    using N(2) M(2) le st assms(3) by (fastforce simp add: keeps_def)
  then show ?thesis using N(1) M(1) st le by (auto simp add: fresh_units_def)
qed

lemma fresh_units_same:
  assumes "fresh_units s t" and "units u = units t" and "keeps t u"
  shows "fresh_units s u"
  using assms by (fastforce simp add: fresh_units_def keeps_def)

lemma units_cannonLogic: "units (cannonLogic b s) = units s"
  unfolding cannonLogic_def by (simp split: option.splits)

lemma units_buildingsLogic: "units (buildingsLogic s) = units s"
proof -
  have "units (fold cannonLogic bs s) = units s" for bs
    by (induction bs arbitrary: s) (simp_all add: units_cannonLogic)
  then show ?thesis by (simp add: buildingsLogic_def)
qed

lemma fresh_units_before_units:
  "fresh_units s (buildingsLogic (production (s\<lparr> tick := tick s + 1 \<rparr>)))"
proof -
  define s0 where "s0 = s\<lparr> tick := tick s + 1 \<rparr>"
  have a: "fresh_units s s0" by (simp add: s0_def fresh_units_def)
  have b: "fresh_units s (production s0)"
  proof (cases "0 \<le> power_bal s0")
    case True
    have "fresh_units s (advanceQueue barracks s0)"
      using a fresh_units_advanceQueue by (rule fresh_units_trans) (simp add: keeps_advanceQueue keeps_refl)
    then have "fresh_units s (advanceQueue factory (advanceQueue barracks s0))"
      using fresh_units_advanceQueue by (rule fresh_units_trans) (simp add: keeps_advanceQueue keeps_refl)
    then show ?thesis using True by (simp add: production_def)
  next
    case False
    then show ?thesis using a by (simp add: production_def)
  qed
  show ?thesis
    unfolding s0_def [symmetric]
    using b by (rule fresh_units_same) (simp_all add: units_buildingsLogic keeps_buildingsLogic keeps_refl)
qed

lemma turn_cong:
  assumes "cargo e1 = cargo e" and "harvestState e1 = harvestState e"
    and "etype e1 = etype e" and "team e1 = team e"
    and "cargo e1' = cargo e'" and "harvestState e1' = harvestState e'"
  shows "turn_ok e1 e1' = turn_ok e e'" and "turn_rel n ore e1 e1' = turn_rel n ore e e'"
  using assms by (simp_all add: turn_ok_def turn_rel_def cycle_step_def)

lemma clock_advanceQueue:
  "tick (advanceQueue key s) = tick s \<and> orePatches (advanceQueue key s) = orePatches s"
  unfolding advanceQueue_def Let_def
  by (simp add: emit_def pushUnit_def split: option.splits)

lemma clock_cannonLogic:
  "tick (cannonLogic b s) = tick s \<and> orePatches (cannonLogic b s) = orePatches s"
  unfolding cannonLogic_def
  by (simp add: modify_def fireProjectile_def split: option.splits)

lemma clock_before_units:
  "tick (buildingsLogic (production (s\<lparr> tick := tick s + 1 \<rparr>))) = tick s + 1
   \<and> orePatches (buildingsLogic (production (s\<lparr> tick := tick s + 1 \<rparr>))) = orePatches s"
proof -
  have "tick (fold cannonLogic bs t) = tick t \<and> orePatches (fold cannonLogic bs t) = orePatches t"
    for bs t
    by (induction bs arbitrary: t) (simp_all add: clock_cannonLogic)
  then show ?thesis
    by (simp add: buildingsLogic_def production_def clock_advanceQueue)
qed

lemma nextRef_unitsLogic: "nextRef (unitsLogic s) = nextRef s"
proof -
  have "nextRef (fold unitLogic us t) = nextRef t" for us t
    by (induction us arbitrary: t) (simp_all add: shape_unitLogic)
  then show ?thesis by (simp add: unitsLogic_def)
qed

lemma update_account:
  assumes i: "engine_inv s" and w: "wf_units s"
  shows "credits (update rnd s)
           = credits s + 500 * int (length (filter (unloads s (update rnd s)) (units s)))
    \<and> (\<forall>u\<in>set (units s).
          turn_ok (store s u) (store (update rnd s) u)
          \<and> turn_rel (tick s + 1) (orePatches s \<noteq> []) (store s u) (store (update rnd s) u))"
proof -
  define s0 where "s0 = s\<lparr> tick := tick s + 1 \<rparr>"
  define s1 where "s1 = buildingsLogic (production s0)"
  define s3 where "s3 = unitsLogic s1"
  have upd: "update rnd s = winLoss (waveLogic rnd (cleanup (projectilesLogic s3)))"
    by (simp add: update_def s3_def s1_def s0_def)
  have k1: "keeps s s1"
    unfolding s1_def s0_def
    by (intro keeps_buildingsLogic keeps_production) (simp add: keeps_refl)
  have f1: "frame s s1"
    unfolding s1_def s0_def
    by (intro frame_buildingsLogic frame_production) (simp add: frame_refl)
  have i1: "engine_inv s1"
    unfolding s1_def s0_def using i
    by (intro inv_buildingsLogic inv_production) simp
  have w1: "wf_units s1"
    unfolding s1_def s0_def using w
    by (intro wf_units_buildingsLogic wf_units_production) simp
  have c1: "tick s1 = tick s + 1" "orePatches s1 = orePatches s"
    using clock_before_units [of s] by (simp_all add: s1_def s0_def)
  obtain N where N: "units s1 = units s @ N"
    "\<forall>n\<in>set N. nextRef s \<le> n \<and> n < nextRef s1 \<and> cargo (store s1 n) = 0"
    using fresh_units_before_units [of s] by (auto simp add: fresh_units_def s1_def s0_def)
  have acc: "credits s3 = credits s1 + 500 * int (length (filter (unloads s1 s3) (units s1)))"
    "\<forall>u\<in>set (units s1). turn_ok (store s1 u) (store s3 u)
        \<and> turn_rel (tick s1) (orePatches s1 \<noteq> []) (store s1 u) (store s3 u)"
    using fold_unitLogic_account [of "units s1" s1] i1 w1
    by (simp_all add: s3_def unitsLogic_def wf_units_def)
  have k3: "keeps s3 (update rnd s)"
    unfolding upd
    by (intro keeps_winLoss keeps_waveLogic keeps_cleanup keeps_projectilesLogic) (rule keeps_refl)
  have n3: "nextRef s3 = nextRef s1" by (simp add: s3_def nextRef_unitsLogic)
  have old: "u < nextRef s \<and> u < nextRef s1 \<and> u < nextRef s3" if "u \<in> set (units s)" for u
    using that w k1 n3 by (auto simp add: wf_units_def keeps_def)
  have pre: "cargo (store s1 u) = cargo (store s u) \<and> harvestState (store s1 u) = harvestState (store s u)
      \<and> etype (store s1 u) = etype (store s u) \<and> team (store s1 u) = team (store s u)"
    if "u \<in> set (units s)" for u
    using old [OF that] k1 f1 by (simp add: keeps_def frame_def same_kind_def)
  have post: "cargo (store (update rnd s) u) = cargo (store s3 u)
      \<and> harvestState (store (update rnd s) u) = harvestState (store s3 u)"
    if "u < nextRef s3" for u
    using that k3 by (simp add: keeps_def)
  have fold_old: "filter (unloads s1 s3) (units s) = filter (unloads s (update rnd s)) (units s)"
  proof (rule filter_cong)
    fix u assume "u \<in> set (units s)"
    then show "unloads s1 s3 u = unloads s (update rnd s) u"
      using pre [of u] post [of u] old [of u] by (simp add: unloads_def)
  qed simp
  have fold_new: "filter (unloads s1 s3) N = []"
  proof -
    have "\<not> unloads s1 s3 n" if "n \<in> set N" for n
    proof -
      have "n \<in> set (units s1)" using that N(1) by simp
      then have "turn_ok (store s1 n) (store s3 n)" using acc(2) by simp
      moreover have "cargo (store s1 n) = 0" using that N(2) by simp
      ultimately show ?thesis by (auto simp add: turn_ok_def unloads_def)
    qed
    then show ?thesis by (simp add: filter_empty_conv)
  qed
  have "credits (update rnd s) = credits s3" using k3 by (simp add: keeps_def)
  also have "\<dots> = credits s1 + 500 * int (length (filter (unloads s (update rnd s)) (units s)))"
    using acc(1) by (simp add: N(1) fold_old fold_new)
  also have "credits s1 = credits s" using k1 by (simp add: keeps_def)
  finally have c: "credits (update rnd s)
      = credits s + 500 * int (length (filter (unloads s (update rnd s)) (units s)))" .
  have t: "turn_ok (store s u) (store (update rnd s) u)
      \<and> turn_rel (tick s + 1) (orePatches s \<noteq> []) (store s u) (store (update rnd s) u)"
    if "u \<in> set (units s)" for u
  proof -
    have "u \<in> set (units s1)" using that N(1) by simp
    then have "turn_ok (store s1 u) (store s3 u)
        \<and> turn_rel (tick s + 1) (orePatches s \<noteq> []) (store s1 u) (store s3 u)"
      using acc(2) by (simp add: c1)
    moreover have "turn_ok (store s1 u) (store s3 u) = turn_ok (store s u) (store (update rnd s) u)"
      by (rule turn_cong) (use pre [OF that] post [of u] old [OF that] in simp_all)
    moreover have "turn_rel (tick s + 1) (orePatches s \<noteq> []) (store s1 u) (store s3 u)
         = turn_rel (tick s + 1) (orePatches s \<noteq> []) (store s u) (store (update rnd s) u)"
      by (rule turn_cong) (use pre [OF that] post [of u] old [OF that] in simp_all)
    ultimately show ?thesis by simp
  qed
  from c t show ?thesis by simp
qed

subsection \<open>A round trip, tick by tick\<close>

lemma tripStart_eval:
  "tripStart = tripAt ui0 0 0 idle None 700 1000 [UpdateUI, UpdateUI, UpdateUI]"
proof -
  have c: "\<not> collision REFINERY
      ((initLevel rnd0)\<lparr> worldMouse := \<lparr> vx = 600, vy = 600 \<rparr>, buildMode := Some REFINERY \<rparr>)"
    by (simp add: initLevel_eval newEngine_def collision_def buildSite_def footprint_def
        overlaps_def createEntity_sel createEntity_pos mkdef_def TILE_SIZE_def Let_def)
  show ?thesis
    unfolding tripStart_def tryPlaceBuilding_def Let_def
    by (simp add: c mkdef_def)
       (simp add: tripAt_def ui0_def harv_def hq_def initLevel_eval newEngine_def pushBuilding_def
         pushUnit_def calculatePower_def emit_def buildSite_def createEntity_eval mkdef_def
         TILE_SIZE_def case_prod_beta numeral_2_eq_2)
qed

lemma harv_sel:
  "cargo (harv ui c hs tp y) = c" "harvestState (harv ui c hs tp y) = hs" "targetPos (harv ui c hs tp y) = tp"
  "pos (harv ui c hs tp y) = \<lparr> vx = 660, vy = y \<rparr>" "etype (harv ui c hs tp y) = HARVESTER"
  "team (harv ui c hs tp y) = player" "targetUnit (harv ui c hs tp y) = None"
  "cooldown (harv ui c hs tp y) = Some 0" "dead (harv ui c hs tp y) = False"
  "selected (harv ui c hs tp y) = fst ui"
  by (simp_all add: harv_def createEntity_sel createEntity_pos)

lemma harv_upd:
  "(harv ui c hs tp y)\<lparr> harvestState := hs' \<rparr> = harv ui c hs' tp y"
  "(harv ui c hs tp y)\<lparr> targetPos := tp' \<rparr> = harv ui c hs tp' y"
  "(harv ui c hs tp y)\<lparr> cargo := c' \<rparr> = harv ui c' hs tp y"
  "(harv ui c hs tp y)\<lparr> pos := \<lparr> vx = 660, vy = y' \<rparr> \<rparr> = harv ui c hs tp y'"
  "(harv ui c hs tp y)\<lparr> selected := b \<rparr> = harv (b, snd ui) c hs tp y"
  by (simp_all add: harv_def createEntity_eval)

lemma trip_sel:
  "power_bal (tripAt ui n c hs tp y cr cl) = -10" "tick (tripAt ui n c hs tp y cr cl) = n"
  "credits (tripAt ui n c hs tp y cr cl) = cr" "calls (tripAt ui n c hs tp y cr cl) = cl"
  "units (tripAt ui n c hs tp y cr cl) = [2]" "buildings (tripAt ui n c hs tp y cr cl) = [0, 1]"
  "projectiles (tripAt ui n c hs tp y cr cl) = []"
  "store (tripAt ui n c hs tp y cr cl) 0 = hq"
  "store (tripAt ui n c hs tp y cr cl) 1 = createEntity 660 640 REFINERY player"
  "store (tripAt ui n c hs tp y cr cl) 2 = harv ui c hs tp y"
  "productionQueues (tripAt ui n c hs tp y cr cl) = (\<lambda>key. None)"
  "worldMouse (tripAt ui n c hs tp y cr cl) = fst (snd ui)"
  "selectionStart (tripAt ui n c hs tp y cr cl) = snd (snd ui)"
  "buildMode (tripAt ui n c hs tp y cr cl) = None"
  by (simp_all add: tripAt_def initLevel_eval newEngine_def)

lemma trip_ore:
  "\<exists>rest. orePatches (tripAt ui n c hs tp y cr cl)
      = \<lparr> opos = \<lparr> vx = 660, vy = 720 \<rparr>, amount = 1000 \<rparr> # rest"
  by (simp add: tripAt_def initLevel_eval newEngine_def upt_conv_Cons rnd0_def)

lemma trip_upd:
  "(tripAt ui n c hs tp y cr cl)\<lparr> tick := n' \<rparr> = tripAt ui n' c hs tp y cr cl"
  "(tripAt ui n c hs tp y cr cl)\<lparr> credits := cr' \<rparr> = tripAt ui n c hs tp y cr' cl"
  "emit e (tripAt ui n c hs tp y cr cl) = tripAt ui n c hs tp y cr (cl @ [e])"
  "modify 2 f (tripAt ui n c hs tp y cr cl)
     = (tripAt ui n c hs tp y cr cl)\<lparr> store := (\<lambda>r. blank)(0 := hq,
          1 := createEntity 660 640 REFINERY player, 2 := f (harv ui c hs tp y)) \<rparr>"
  by (simp_all add: tripAt_def emit_def modify_def)

lemma trip_modify:
  "f (harv ui c hs tp y) = harv ui c' hs' tp' y' \<Longrightarrow>
   modify 2 f (tripAt ui n c hs tp y cr cl) = tripAt ui n c' hs' tp' y' cr cl"
  by (simp add: trip_upd) (simp add: tripAt_def)

lemma trip_same:
  "(tripAt ui n c hs tp y cr cl)\<lparr> units := [2], buildings := [0, 1] \<rparr> = tripAt ui n c hs tp y cr cl"
  "(tripAt ui n c hs tp y cr cl)\<lparr> projectiles := [] \<rparr> = tripAt ui n c hs tp y cr cl"
  by (simp_all add: tripAt_def initLevel_eval newEngine_def)

lemma trip_sel1:
  "store (tripAt ui n c hs tp y cr cl) (Suc 0) = createEntity 660 640 REFINERY player"
  by (simp add: tripAt_def initLevel_eval newEngine_def)

lemma trip_refinery:
  "find (isPlayer REFINERY (store (tripAt ui n c hs tp y cr cl))) [0, Suc 0] = Some (Suc 0)"
  "find (isPlayer CONSTRUCTION_YARD (store (tripAt ui n c hs tp y cr cl))) [0, Suc 0] = Some 0"
  by (simp_all add: isPlayer_def trip_sel trip_sel1 hq_sel createEntity_sel)

lemma trip_seek:
  assumes "c < 500" "hs = idle \<or> hs = moving_to_ore"
  shows "updateHarvester 2 (tripAt ui n c hs tp 700 cr cl) = tripAt ui n c harvesting None 700 cr cl"
proof -
  obtain rest where o: "orePatches (tripAt ui n c hs tp 700 cr cl)
      = \<lparr> opos = \<lparr> vx = 660, vy = 720 \<rparr>, amount = 1000 \<rparr> # rest"
    using trip_ore by blast
  have m: "modify 2 (\<lambda>e. e\<lparr> targetPos := Some \<lparr> vx = 660, vy = 720 \<rparr>,
             harvestState := moving_to_ore \<rparr>) (tripAt ui n c hs tp 700 cr cl)
        = tripAt ui n c moving_to_ore (Some \<lparr> vx = 660, vy = 720 \<rparr>) 700 cr cl"
    by (rule trip_modify) (simp add: harv_upd)
  have m2: "modify 2 (\<lambda>e. e\<lparr> harvestState := harvesting, targetPos := None \<rparr>)
          (tripAt ui n c moving_to_ore (Some \<lparr> vx = 660, vy = 720 \<rparr>) 700 cr cl)
        = tripAt ui n c harvesting None 700 cr cl"
    by (rule trip_modify) (simp add: harv_upd)
  show ?thesis
    unfolding updateHarvester_def Let_def cap_500
    using assms by (simp add: trip_sel harv_sel o m m2 dist_vec_same_x)
qed

lemma trip_harvest:
  assumes "c < 500"
  shows "updateHarvester 2 (tripAt ui n c harvesting tp y cr cl)
       = tripAt ui n (if n mod 10 = 0 then c + 10 else c)
           (if n mod 10 = 0 \<and> 500 \<le> c + 10 then returning else harvesting) tp y cr cl"
proof -
  have m: "modify 2 (\<lambda>e. e\<lparr> cargo := cargo e + 10 \<rparr>) (tripAt ui n c harvesting tp y cr cl)
        = tripAt ui n (c + 10) harvesting tp y cr cl"
    by (rule trip_modify) (simp add: harv_upd harv_sel)
  have m2: "modify 2 (\<lambda>e. e\<lparr> harvestState := returning \<rparr>) (tripAt ui n (c + 10) harvesting tp y cr cl)
        = tripAt ui n (c + 10) returning tp y cr cl"
    by (rule trip_modify) (simp add: harv_upd)
  show ?thesis
    unfolding updateHarvester_def Let_def cap_500
    using assms by (simp add: trip_sel harv_sel m m2)
qed

lemma trip_return:
  assumes "500 \<le> c"
  shows "updateHarvester 2 (tripAt ui n c hs tp y cr cl)
       = (if \<bar>y - 640\<bar> < 60
          then tripAt ui n 0 idle (Some \<lparr> vx = 660, vy = 640 \<rparr>) y (cr + c)
                 (cl @ [CreditsGained c, UpdateUI])
          else tripAt ui n c returning (Some \<lparr> vx = 660, vy = 640 \<rparr>) y cr cl)"
proof -
  have m: "modify 2 (\<lambda>e. e\<lparr> harvestState := returning \<rparr>) (tripAt ui n c hs tp y cr cl)
        = tripAt ui n c returning tp y cr cl"
    by (rule trip_modify) (simp add: harv_upd)
  have m2: "modify 2 (\<lambda>e. e\<lparr> targetPos := Some \<lparr> vx = 660, vy = 640 \<rparr> \<rparr>)
          (tripAt ui n c returning tp y cr cl)
        = tripAt ui n c returning (Some \<lparr> vx = 660, vy = 640 \<rparr>) y cr cl"
    by (rule trip_modify) (simp add: harv_upd)
  have m3: "modify 2 (\<lambda>e. e\<lparr> cargo := 0, harvestState := idle \<rparr>)
          (tripAt ui n c returning (Some \<lparr> vx = 660, vy = 640 \<rparr>) y (cr + c) (cl @ [CreditsGained c]))
        = tripAt ui n 0 idle (Some \<lparr> vx = 660, vy = 640 \<rparr>) y (cr + c) (cl @ [CreditsGained c])"
    by (rule trip_modify) (simp add: harv_upd)
  show ?thesis
    unfolding updateHarvester_def Let_def cap_500
    using assms
    by (simp add: trip_sel harv_sel m isPlayer_def hq_sel createEntity_sel trip_sel1 m2 createEntity_pos dist_vec_same_x
          trip_upd(2,3) m3)
qed

lemma trip_unitLogic:
  assumes "updateHarvester 2 (tripAt ui n c hs tp y cr cl) = tripAt ui n' c' hs' tp' y' cr' cl'"
  shows "unitLogic 2 (tripAt ui n c hs tp y cr cl) = move 2 tp' (tripAt ui n' c' hs' tp' y' cr' cl')"
  unfolding unitLogic_def Let_def
  by (simp add: trip_sel harv_sel assms aiLogic_def autoTarget_def attack_def coolDown_def gt0_def)

lemma trip_move_none: "move 2 None s = s"
  by (simp add: move_def)

lemma trip_move:
  assumes "2 / 5 < y - 640"
  shows "move 2 (Some \<lparr> vx = 660, vy = 640 \<rparr>) (tripAt ui n c hs tp y cr cl)
       = tripAt ui n c hs tp (y - 2 / 5) cr cl"
proof -
  have k: "(1280 - y * 2) / (y * 5 - 3200) = - (2 / 5)"
    using assms by (simp add: field_simps)
  show ?thesis
    unfolding move_def Let_def
    using assms
    apply (simp add: trip_sel harv_sel norm2_axis js_or_def repel_def)
    apply (rule trip_modify)
    apply (simp add: harv_sel harv_upd k)
    done
qed

lemma trip_frame:
  assumes "unitLogic 2 (tripAt ui (n + 1) c hs tp y cr cl) = tripAt ui (n + 1) c' hs' tp' y' cr' cl'"
    and "0 \<le> n" "n + 1 < 5400"
  shows "update rnd (tripAt ui n c hs tp y cr cl) = tripAt ui (n + 1) c' hs' tp' y' cr' cl'"
proof -
  have 1: "production ((tripAt ui n c hs tp y cr cl)\<lparr> tick := tick (tripAt ui n c hs tp y cr cl) + 1 \<rparr>)
      = tripAt ui (n + 1) c hs tp y cr cl"
    by (simp add: trip_upd trip_sel production_frozen)
  have 2: "buildingsLogic (tripAt ui (n + 1) c hs tp y cr cl) = tripAt ui (n + 1) c hs tp y cr cl"
    by (simp add: trip_sel buildingsLogic_frozen)
  have 3: "unitsLogic (tripAt ui (n + 1) c hs tp y cr cl) = tripAt ui (n + 1) c' hs' tp' y' cr' cl'"
    by (simp add: unitsLogic_def trip_sel assms(1))
  have 4: "projectilesLogic (tripAt ui (n + 1) c' hs' tp' y' cr' cl') = tripAt ui (n + 1) c' hs' tp' y' cr' cl'"
    by (simp add: projectilesLogic_def trip_sel trip_same)
  have 5: "cleanup (tripAt ui (n + 1) c' hs' tp' y' cr' cl') = tripAt ui (n + 1) c' hs' tp' y' cr' cl'"
    by (simp add: cleanup_def trip_sel trip_sel1 harv_sel hq_sel createEntity_sel trip_same)
  have 6: "waveLogic rnd (tripAt ui (n + 1) c' hs' tp' y' cr' cl') = tripAt ui (n + 1) c' hs' tp' y' cr' cl'"
    using assms(2,3) by (simp add: waveLogic_def trip_sel)
  have 7: "winLoss (tripAt ui (n + 1) c' hs' tp' y' cr' cl') = tripAt ui (n + 1) c' hs' tp' y' cr' cl'"
    by (simp add: winLoss_def trip_sel isPlayer_def hq_sel)
  show ?thesis
    unfolding update_def by (simp only: 1 2 3 4 5 6 7)
qed

lemma trip_tick_seek:
  "update rnd (tripAt ui 0 0 idle None 700 cr cl) = tripAt ui 1 0 harvesting None 700 cr cl"
proof -
  have "unitLogic 2 (tripAt ui (0 + 1) 0 idle None 700 cr cl)
      = tripAt ui (0 + 1) 0 harvesting None 700 cr cl"
    by (simp add: trip_unitLogic [OF trip_seek] trip_move_none)
  then have "update rnd (tripAt ui 0 0 idle None 700 cr cl) = tripAt ui (0 + 1) 0 harvesting None 700 cr cl"
    by (rule trip_frame) simp_all
  then show ?thesis by simp
qed

lemma trip_tick_harvest:
  assumes "0 \<le> n" "n + 1 < 5400" "c < 500"
  shows "update rnd (tripAt ui n c harvesting None 700 cr cl)
       = tripAt ui (n + 1) (if (n + 1) mod 10 = 0 then c + 10 else c)
           (if (n + 1) mod 10 = 0 \<and> 500 \<le> c + 10 then returning else harvesting) None 700 cr cl"
proof -
  have "unitLogic 2 (tripAt ui (n + 1) c harvesting None 700 cr cl)
      = tripAt ui (n + 1) (if (n + 1) mod 10 = 0 then c + 10 else c)
           (if (n + 1) mod 10 = 0 \<and> 500 \<le> c + 10 then returning else harvesting) None 700 cr cl"
    by (simp only: trip_unitLogic [OF trip_harvest [OF assms(3)]] trip_move_none)
  then show ?thesis using assms(1,2) by (rule trip_frame)
qed

lemma trip_tick_return:
  assumes "0 \<le> n" "n + 1 < 5400" "500 \<le> c"
  shows "update rnd (tripAt ui n c returning None 700 cr cl)
       = tripAt ui (n + 1) c returning (Some \<lparr> vx = 660, vy = 640 \<rparr>) (700 - 2 / 5) cr cl"
proof -
  have u: "updateHarvester 2 (tripAt ui (n + 1) c returning None 700 cr cl)
      = tripAt ui (n + 1) c returning (Some \<lparr> vx = 660, vy = 640 \<rparr>) 700 cr cl"
    using trip_return [OF assms(3), of ui "n + 1" returning None 700 cr cl] by simp
  have "unitLogic 2 (tripAt ui (n + 1) c returning None 700 cr cl)
      = tripAt ui (n + 1) c returning (Some \<lparr> vx = 660, vy = 640 \<rparr>) (700 - 2 / 5) cr cl"
    by (simp only: trip_unitLogic [OF u]) (rule trip_move, simp)
  then show ?thesis using assms(1,2) by (rule trip_frame)
qed

lemma trip_tick_deposit:
  assumes "0 \<le> n" "n + 1 < 5400" "500 \<le> c"
  shows "update rnd (tripAt ui n c returning (Some \<lparr> vx = 660, vy = 640 \<rparr>) (700 - 2 / 5) cr cl)
       = tripAt ui (n + 1) 0 idle (Some \<lparr> vx = 660, vy = 640 \<rparr>) (700 - 2 / 5 - 2 / 5) (cr + c)
           (cl @ [CreditsGained c, UpdateUI])"
proof -
  have u: "updateHarvester 2
        (tripAt ui (n + 1) c returning (Some \<lparr> vx = 660, vy = 640 \<rparr>) (700 - 2 / 5) cr cl)
      = tripAt ui (n + 1) 0 idle (Some \<lparr> vx = 660, vy = 640 \<rparr>) (700 - 2 / 5) (cr + c)
           (cl @ [CreditsGained c, UpdateUI])"
    using trip_return [OF assms(3), of ui "n + 1" returning "Some \<lparr> vx = 660, vy = 640 \<rparr>"
        "700 - 2 / 5" cr cl] by simp
  have "unitLogic 2 (tripAt ui (n + 1) c returning (Some \<lparr> vx = 660, vy = 640 \<rparr>) (700 - 2 / 5) cr cl)
      = tripAt ui (n + 1) 0 idle (Some \<lparr> vx = 660, vy = 640 \<rparr>) (700 - 2 / 5 - 2 / 5) (cr + c)
           (cl @ [CreditsGained c, UpdateUI])"
    by (simp only: trip_unitLogic [OF u]) (rule trip_move, simp)
  then show ?thesis using assms(1,2) by (rule trip_frame)
qed

lemma trip_cargo:
  "(if (int k + 1) mod 10 = 0 then 10 * (int k div 10) + 10 else 10 * (int k div 10))
      = 10 * ((int k + 1) div 10)"
proof -
  have e: "int k + 1 = int (Suc k)" by simp
  have m: "int (Suc k) mod 10 = int (Suc k mod 10)" "int (Suc k) div 10 = int (Suc k div 10)"
    "int k div 10 = int (k div 10)"
    by (simp_all add: zmod_int zdiv_int)
  show ?thesis unfolding e m by (simp add: div_Suc)
qed

lemma trip_full:
  assumes k: "k < 500"
  shows "((int k + 1) mod 10 = 0 \<and> 500 \<le> 10 * (int k div 10) + 10) \<longleftrightarrow> \<not> Suc k < 500"
proof -
  define q r where "q = k div 10" and "r = k mod 10"
  have kr: "k = 10 * q + r" "r < 10" by (simp_all add: q_def r_def)
  have e: "int k + 1 = int (Suc k)" by simp
  have m: "int (Suc k) mod 10 = int (Suc k mod 10)" "int k div 10 = int q"
    by (simp_all add: zmod_int zdiv_int q_def)
  have s: "Suc k mod 10 = 0 \<longleftrightarrow> r = 9" using kr(2) by (auto simp add: mod_Suc r_def)
  show ?thesis
  proof (cases "Suc k < 500")
    case True
    then show ?thesis unfolding e m using kr s by auto
  next
    case False
    then have "k = 499" using k by simp
    then show ?thesis by simp
  qed
qed

lemma trip_h_step:
  assumes "k < 500"
  shows "update rnd (trip_h k) = trip_h (Suc k)"
proof (cases "k = 0")
  case True
  then show ?thesis by (simp add: trip_h_def trip_tick_seek)
next
  case False
  have c: "10 * (int k div 10) < 500" using assms by (simp add: zdiv_int [symmetric])
  have n: "0 \<le> int k" "int k + 1 < 5400" using assms by simp_all
  have "update rnd (tripAt ui0 (int k) (10 * (int k div 10)) harvesting None 700 1000
          [UpdateUI, UpdateUI, UpdateUI])
      = tripAt ui0 (int k + 1) (10 * ((int k + 1) div 10))
          (if Suc k < 500 then harvesting else returning) None 700 1000
          [UpdateUI, UpdateUI, UpdateUI]"
    unfolding trip_tick_harvest [OF n c] trip_cargo trip_full [OF assms] by simp
  then show ?thesis using False assms by (simp add: trip_h_def add.commute)
qed

lemma trip_h_run: "k \<le> 500 \<Longrightarrow> (update rnd ^^ k) tripStart = trip_h k"
proof (induction k)
  case 0
  then show ?case by (simp add: tripStart_eval trip_h_def)
next
  case (Suc k)
  then show ?case by (simp add: trip_h_step)
qed

lemma tripFull_eval:
  "tripFull = tripAt ui0 501 500 returning (Some \<lparr> vx = 660, vy = 640 \<rparr>) (700 - 2 / 5) 1000
     [UpdateUI, UpdateUI, UpdateUI]"
proof -
  have "(update rnd0 ^^ 500) tripStart = trip_h 500" by (rule trip_h_run) simp
  also have "\<dots> = tripAt ui0 500 500 returning None 700 1000 [UpdateUI, UpdateUI, UpdateUI]"
    by (simp add: trip_h_def)
  finally show ?thesis
    unfolding tripFull_def using trip_tick_return [where n = 500 and c = 500 and rnd = rnd0 and cr = 1000 and ui = ui0] by simp
qed

lemma tripFull_update:
  "update rnd tripFull = tripAt ui0 502 0 idle (Some \<lparr> vx = 660, vy = 640 \<rparr>) (700 - 2 / 5 - 2 / 5) 1500
     [UpdateUI, UpdateUI, UpdateUI, CreditsGained 500, UpdateUI]"
  unfolding tripFull_eval using trip_tick_deposit [where n = 501 and c = 500 and rnd = rnd and cr = 1000 and ui = ui0] by simp

lemma reachable_funpow: "reachable s \<Longrightarrow> reachable ((update rnd ^^ k) s)"
  by (induction k) (simp_all add: r_update)

lemma reachable_tripStart: "reachable tripStart"
  unfolding tripStart_def by (intro r_place r_mode r_mouse r_init)

lemma reachable_tripFull: "reachable tripFull"
  unfolding tripFull_def by (intro r_update reachable_funpow reachable_tripStart)

section \<open>The claims\<close>

text \<open>
  C7. In every reachable state, every entity (each member of \<open>units\<close> and \<open>buildings\<close>, and
  every other allocated object, such as a swept target a projectile still refers to) has a
  cooldown that is not negative (or no cooldown at all, when the catalog gives its type no
  fire rate) and hit points at most its maximum.
\<close>

theorem cooldown_and_hp_bounds:
  assumes "reachable s"
    and "r \<in> set (units s) \<union> set (buildings s) \<or> r < nextRef s"
  shows "(case cooldown (store s r) of None \<Rightarrow> True | Some c \<Rightarrow> 0 \<le> c)
    \<and> hp (store s r) \<le> maxHp (store s r)"
proof -
  have i: "engine_inv s" using assms(1) by (rule reachable_inv)
  then have "r < nextRef s" using assms(2) by (auto simp add: engine_inv_def)
  then have "ent_ok (store s r)" using i by (simp add: engine_inv_def)
  then show ?thesis by (simp add: ent_ok_def)
qed

theorem cooldown_and_hp_bounds_witness:
  "reachable refineryPlaced \<and> 2 \<in> set (units refineryPlaced)
   \<and> cooldown (store refineryPlaced 2) = Some 0
   \<and> hp (store refineryPlaced 2) \<le> maxHp (store refineryPlaced 2)"
  using cooldown_and_hp_bounds [of refineryPlaced 2] reachable_refineryPlaced
    refineryPlaced_eval
  by (simp add: createEntity_sel)

text \<open>
  C9. A round trip is completed on the tick in which a harvester that was not idle is idle
  again. In every reachable state, over one tick: every unit's cargo and harvest state
  move as the cycle says (\<open>turn_rel\<close>: seek, extract 10 on every tenth tick up to 500, return,
  unload); a unit that was not idle and is idle after the tick has unloaded; a unit that
  unloads is a player harvester (the type whose capacity is 500) that held exactly 500 and
  holds exactly 0 after the tick, idle; and the credits grow by exactly 500 for each unit
  that unloads, and change in no other way.
\<close>

theorem harvester_round_trip:
  assumes "reachable s"
  shows "credits (update rnd s)
           = credits s + 500 * int (length (filter (unloads s (update rnd s)) (units s)))
     \<and> (\<forall>u\<in>set (units s).
          turn_rel (tick s + 1) (orePatches s \<noteq> []) (store s u) (store (update rnd s) u)
          \<and> (harvestState (store s u) \<noteq> idle \<and> harvestState (store (update rnd s) u) = idle
               \<longrightarrow> unloads s (update rnd s) u)
          \<and> (unloads s (update rnd s) u \<longrightarrow>
                d_capacity (DEFINITIONS (etype (store s u))) = Some 500
                \<and> team (store s u) = player
                \<and> cargo (store s u) = 500 \<and> cargo (store (update rnd s) u) = 0
                \<and> harvestState (store (update rnd s) u) = idle))"
proof -
  have i: "engine_inv s" using assms by (rule reachable_inv)
  have w: "wf_units s" using assms by (rule reachable_wf_units)
  note a = update_account [OF i w, of rnd]
  have "turn_rel (tick s + 1) (orePatches s \<noteq> []) (store s u) (store (update rnd s) u)
      \<and> (harvestState (store s u) \<noteq> idle \<and> harvestState (store (update rnd s) u) = idle
           \<longrightarrow> unloads s (update rnd s) u)
      \<and> (unloads s (update rnd s) u \<longrightarrow>
            d_capacity (DEFINITIONS (etype (store s u))) = Some 500
            \<and> team (store s u) = player
            \<and> cargo (store s u) = 500 \<and> cargo (store (update rnd s) u) = 0
            \<and> harvestState (store (update rnd s) u) = idle)"
    if "u \<in> set (units s)" for u
  proof -
    have "turn_ok (store s u) (store (update rnd s) u)"
      and r: "turn_rel (tick s + 1) (orePatches s \<noteq> []) (store s u) (store (update rnd s) u)"
      using a that by simp_all
    then show ?thesis by (auto simp add: turn_ok_def unloads_def)
  qed
  then show ?thesis using a by blast
qed

theorem harvester_round_trip_witness:
  "reachable tripStart \<and> harvestState (store tripStart 2) = idle
   \<and> harvestState (store (update rnd0 tripStart) 2) = harvesting
   \<and> reachable tripFull \<and> units tripFull = [2]
   \<and> harvestState (store tripFull 2) = returning \<and> cargo (store tripFull 2) = 500
   \<and> credits tripFull = 1000
   \<and> harvestState (store (update rnd0 tripFull) 2) = idle
   \<and> unloads tripFull (update rnd0 tripFull) 2
   \<and> cargo (store (update rnd0 tripFull) 2) = 0
   \<and> credits (update rnd0 tripFull) = 1500"
proof -
  have s: "harvestState (store tripStart 2) = idle"
    "harvestState (store (update rnd0 tripStart) 2) = harvesting"
    by (simp_all add: tripStart_eval trip_tick_seek trip_sel harv_sel)
  have f: "units tripFull = [2]" "harvestState (store tripFull 2) = returning"
    "credits tripFull = 1000" "harvestState (store (update rnd0 tripFull) 2) = idle"
    by (simp_all add: tripFull_update) (simp_all add: tripFull_eval trip_sel harv_sel)
  show ?thesis
    using harvester_round_trip [OF reachable_tripFull, of rnd0] reachable_tripStart
      reachable_tripFull s f
    by simp
qed

text \<open>
  C10. The credits counter starts at 2500 and is never negative in a reachable state:
  \<open>tryPlaceBuilding\<close> and \<open>queueUnit\<close> deduct a cost only after \<open>credits < cost\<close> was false,
  and the deposit adds a cargo, which is never negative.
\<close>

theorem credits_never_negative:
  "credits (initLevel rnd) = 2500 \<and> (reachable s \<longrightarrow> 0 \<le> credits s)"
proof -
  have "credits (initLevel rnd) = 2500"
    by (simp add: initLevel_def calculatePower_def pushBuilding_def newEngine_def emit_def
        case_prod_beta Let_def)
  moreover have "reachable s \<longrightarrow> 0 \<le> credits s"
    using reachable_inv [of s] by (auto simp add: engine_inv_def)
  ultimately show ?thesis by simp
qed

theorem credits_never_negative_witness:
  "reachable refineryPlaced \<and> credits refineryPlaced = 1000 \<and> 0 \<le> credits refineryPlaced"
  using credits_never_negative [of "\<lambda>i. 1/2" refineryPlaced] reachable_refineryPlaced
    refineryPlaced_eval
  by simp

text \<open>
  C6. \<open>createEntity\<close> is to snap building-class types to the grid. The guard of the snap
  is \<open>type in [...]\<close>, which tests property names of the array, not its elements, and is
  false for every entity type: the position is returned as given. The construction yard
  that \<open>initLevel\<close> creates at (1000, 1000) stays there; its snapped centre is (1060, 1060).
\<close>

theorem createEntity_never_snaps:
  "pos (createEntity 1000 1000 CONSTRUCTION_YARD player) = \<lparr> vx = 1000, vy = 1000 \<rparr>
   \<and> snapped 1000 1000 CONSTRUCTION_YARD = \<lparr> vx = 1060, vy = 1060 \<rparr>
   \<and> pos (createEntity 1000 1000 CONSTRUCTION_YARD player) \<noteq> snapped 1000 1000 CONSTRUCTION_YARD"
  by (simp add: createEntity_pos snapped_def TILE_SIZE_def mkdef_def)

end
